theory Spec2Isabelle
  imports Complex_Main "HOL-Library.Word"
begin

unbundle bit_operations_syntax

section \<open>Machine integers and byte spans\<close>

type_synonym u8 = "8 word"
type_synonym u16 = "16 word"
type_synonym u32 = "32 word"
type_synonym u64 = "64 word"

text \<open>
  The frame header is a byte-packed C struct that is copied to and from the wire with
  \<^verbatim>\<open>memcpy\<close> on a little-endian host. The following functions are the byte images of
  the 16-bit and 32-bit fields under that layout.
\<close>

definition le16 :: "u16 \<Rightarrow> u8 list" where
  "le16 w = [ucast w, ucast (drop_bit 8 w)]"

definition le32 :: "u32 \<Rightarrow> u8 list" where
  "le32 w = [ucast w, ucast (drop_bit 8 w), ucast (drop_bit 16 w), ucast (drop_bit 24 w)]"

definition rd16 :: "u8 list \<Rightarrow> u16" where
  "rd16 bs = ucast (bs ! 0) OR push_bit 8 (ucast (bs ! 1))"

definition rd32 :: "u8 list \<Rightarrow> u32" where
  "rd32 bs = ucast (bs ! 0) OR push_bit 8 (ucast (bs ! 1)) OR push_bit 16 (ucast (bs ! 2))
     OR push_bit 24 (ucast (bs ! 3))"

section \<open>Checksums (bb\_checksum.c)\<close>

text \<open>The folding step \<^verbatim>\<open>(x & 0xffff) + (x >> 16)\<close> of Fletcher-32.\<close>

definition fold16 :: "u32 \<Rightarrow> u32" where
  "fold16 x = (x AND 0xffff) + drop_bit 16 x"

text \<open>
  The inner \<^verbatim>\<open>do { sum1 += *data++; sum2 += sum1; } while (--tlen);\<close> over one block.
  It is only entered with a non-empty block.
\<close>

fun fletcher_block :: "u32 \<Rightarrow> u32 \<Rightarrow> u8 list \<Rightarrow> u32 \<times> u32" where
  "fletcher_block sum1 sum2 [] = (sum1, sum2)"
| "fletcher_block sum1 sum2 (b # bs) = fletcher_block (sum1 + ucast b) (sum2 + (sum1 + ucast b)) bs"

text \<open>The outer \<^verbatim>\<open>while (len)\<close> loop, which consumes blocks of at most 360 bytes.\<close>

function fletcher_loop :: "u32 \<Rightarrow> u32 \<Rightarrow> u8 list \<Rightarrow> u32 \<times> u32" where
  "fletcher_loop sum1 sum2 data =
     (if data = [] then (sum1, sum2)
      else let tlen = (if length data > 360 then 360 else length data);
               r = fletcher_block sum1 sum2 (take tlen data)
           in fletcher_loop (fold16 (fst r)) (fold16 (snd r)) (drop tlen data))"
  by pat_completeness auto
termination
  by (relation "measure (\<lambda>(sum1, sum2, data). length data)") (auto split: if_splits)

declare fletcher_loop.simps [simp del]

definition bb_fletcher32 :: "u8 list \<Rightarrow> u32" where
  "bb_fletcher32 data =
     (let r = fletcher_loop 0xffff 0xffff data;
          sum1 = fold16 (fst r);
          sum2 = fold16 (snd r)
      in push_bit 16 sum2 OR sum1)"

text \<open>
  The build and the host decide which checksum the codec uses: \<open>cpu_sse42\<close> is the result
  of \<^verbatim>\<open>have_sse42()\<close> (the CPUID probe; constantly false off x86-64), and
  \<open>sse42_intrinsics\<close> says whether the translation unit was compiled with
  \<^verbatim>\<open>__SSE4_2__\<close> defined.
\<close>

record platform =
  cpu_sse42 :: bool
  sse42_intrinsics :: bool

definition bb_crc32c_hw_available :: "platform \<Rightarrow> bool" where
  "bb_crc32c_hw_available pf = cpu_sse42 pf"

text \<open>
  Modelled from the spec: the compiler intrinsic \<^verbatim>\<open>__builtin_ia32_crc32qi\<close> is not part
  of the repository. The specification names the checksum as CRC32C with the Castagnoli
  polynomial 0x1EDC6F41; the instruction works on the bit-reflected form of that
  polynomial, 0x82F63B78, and consumes one byte, least significant bit first.
\<close>

definition crc32c_shift :: "u32 \<Rightarrow> u32" where
  "crc32c_shift c = (if bit c 0 then drop_bit 1 c XOR 0x82F63B78 else drop_bit 1 c)"

definition crc32qi :: "u32 \<Rightarrow> u8 \<Rightarrow> u32" where
  "crc32qi crc b =
     crc32c_shift (crc32c_shift (crc32c_shift (crc32c_shift
       (crc32c_shift (crc32c_shift (crc32c_shift (crc32c_shift (crc XOR ucast b))))))))"

fun crc32c_loop :: "u32 \<Rightarrow> u8 list \<Rightarrow> u32" where
  "crc32c_loop crc [] = crc"
| "crc32c_loop crc (b # bs) = crc32c_loop (crc32qi crc b) bs"

definition bb_crc32c_hw :: "platform \<Rightarrow> u8 list \<Rightarrow> u32" where
  "bb_crc32c_hw pf data =
     (if \<not> cpu_sse42 pf then 0
      else if sse42_intrinsics pf then NOT (crc32c_loop 0xffffffff data)
      else 0)"

section \<open>Frame codec (bb\_wire.h, bb\_wire.c)\<close>

definition BB_MAGIC :: u16 where "BB_MAGIC = 0xB17E"
definition BB_FLAG_ACK :: u8 where "BB_FLAG_ACK = 0x01"
definition BB_FLAG_DATA :: u8 where "BB_FLAG_DATA = 0x02"
definition BB_FLAG_FIN :: u8 where "BB_FLAG_FIN = 0x04"

record bb_hdr_t =
  magic :: u16
  flags :: u8
  hdrlen :: u8
  seq :: u32
  ack :: u32
  len :: u16
  crc32c :: u32

text \<open>\<^verbatim>\<open>sizeof(bb_hdr_t)\<close> under \<^verbatim>\<open>#pragma pack(push,1)\<close>: the sum of the field sizes.\<close>

definition sizeof_bb_hdr_t :: nat where
  "sizeof_bb_hdr_t = 2 + 1 + 1 + 4 + 4 + 2 + 4"

text \<open>The byte image of a header (\<^verbatim>\<open>memcpy(buf, &h, sizeof(h))\<close>) and its inverse.\<close>

definition hdr_bytes :: "bb_hdr_t \<Rightarrow> u8 list" where
  "hdr_bytes h =
     le16 (magic h) @ [flags h, hdrlen h] @ le32 (seq h) @ le32 (ack h) @ le16 (len h)
       @ le32 (crc32c h)"

definition hdr_of_bytes :: "u8 list \<Rightarrow> bb_hdr_t" where
  "hdr_of_bytes buf =
     \<lparr> magic = rd16 (take 2 buf), flags = buf ! 2, hdrlen = buf ! 3,
       seq = rd32 (take 4 (drop 4 buf)), ack = rd32 (take 4 (drop 8 buf)),
       len = rd16 (take 2 (drop 12 buf)), crc32c = rd32 (take 4 (drop 14 buf)) \<rparr>"

text \<open>Reading and writing \<^verbatim>\<open>((bb_hdr_t*)buf)->crc32c\<close> in place (offset 14, four bytes).\<close>

definition get_crc :: "u8 list \<Rightarrow> u32" where
  "get_crc buf = rd32 (take 4 (drop 14 buf))"

definition set_crc :: "u8 list \<Rightarrow> u32 \<Rightarrow> u8 list" where
  "set_crc buf crc = take 14 buf @ le32 crc @ drop 18 buf"

definition wire_checksum :: "platform \<Rightarrow> u8 list \<Rightarrow> u32" where
  "wire_checksum pf buf =
     (if bb_crc32c_hw_available pf then bb_crc32c_hw pf buf else bb_fletcher32 buf)"

text \<open>
  \<^verbatim>\<open>bb_wire_pack\<close>. The C function returns the number of bytes written, 0 on
  insufficient capacity; the model returns the written span \<open>buf[0..ret)\<close>, and \<open>None\<close>
  for the return value 0. The payload pointer is read for \<open>len\<close> bytes.
\<close>

definition bb_wire_pack ::
  "platform \<Rightarrow> nat \<Rightarrow> u8 \<Rightarrow> u32 \<Rightarrow> u32 \<Rightarrow> u8 list \<Rightarrow> u16 \<Rightarrow> u8 list option" where
  "bb_wire_pack pf cap fl sq ak payload plen =
     (if cap < sizeof_bb_hdr_t + unat plen then None
      else let h = \<lparr> magic = BB_MAGIC, flags = fl, hdrlen = 10, seq = sq, ack = ak,
                     len = plen, crc32c = 0 \<rparr>;
               buf = hdr_bytes h @ take (unat plen) payload;
               crc = wire_checksum pf buf
           in Some (set_crc buf crc))"

text \<open>
  \<^verbatim>\<open>bb_wire_parse\<close> on the received span \<open>buf[0..n)\<close>. On success it yields the
  header copy and the payload pointer \<open>buf + sizeof(bb_hdr_t)\<close>, modelled as the bytes
  of the span from that offset on.
\<close>

definition bb_wire_parse :: "platform \<Rightarrow> u8 list \<Rightarrow> (bb_hdr_t \<times> u8 list) option" where
  "bb_wire_parse pf buf =
     (if length buf < sizeof_bb_hdr_t then None
      else let out = hdr_of_bytes buf in
        if magic out \<noteq> BB_MAGIC then None
        else let crc = get_crc buf;
                 calc = wire_checksum pf (set_crc buf 0)
             in if crc \<noteq> calc then None
                else if length buf < sizeof_bb_hdr_t + unat (len out) then None
                else Some (out, drop sizeof_bb_hdr_t buf))"

text \<open>
  Auxiliary notions used in the statements about the codec: the header that
  \<^verbatim>\<open>bb_wire_pack\<close> leaves in the buffer, the sum of the bytes of a span, the residue
  that Fletcher-32 keeps of it in its low half, and a span with one bit inverted.
\<close>

definition packed_hdr :: "platform \<Rightarrow> u8 \<Rightarrow> u32 \<Rightarrow> u32 \<Rightarrow> u8 list \<Rightarrow> u16 \<Rightarrow> bb_hdr_t" where
  "packed_hdr pf fl sq ak payload plen =
     \<lparr> magic = BB_MAGIC, flags = fl, hdrlen = 10, seq = sq, ack = ak, len = plen,
       crc32c = wire_checksum pf (hdr_bytes \<lparr> magic = BB_MAGIC, flags = fl, hdrlen = 10, seq = sq,
          ack = ak, len = plen, crc32c = 0 \<rparr> @ take (unat plen) payload) \<rparr>"




text \<open>The two hosts used in the examples: one without and one with hardware CRC32C.\<close>

definition pf_portable :: platform where
  "pf_portable = \<lparr> cpu_sse42 = False, sse42_intrinsics = False \<rparr>"

definition pf_sse42 :: platform where
  "pf_sse42 = \<lparr> cpu_sse42 = True, sse42_intrinsics = True \<rparr>"

section \<open>The environment of a session\<close>

text \<open>
  The transport runs on one thread against a monotonic clock and a UDP socket. What they
  answer is not decided by the program; the model reads it from an environment \<open>env\<close>:
  the host's checksum support, the successive results of \<^verbatim>\<open>bb_now_ns()\<close>, of \<^verbatim>\<open>sendto()\<close> and of the
  \<^verbatim>\<open>select()\<close>/\<^verbatim>\<open>recvfrom()\<close> pair. The \<open>world\<close> counts the calls made so far and logs
  the datagrams that \<^verbatim>\<open>sendto()\<close> accepted, with their destination. \<^verbatim>\<open>nanosleep()\<close> has
  no effect other than on later clock readings, and the \<^verbatim>\<open>fprintf\<close> traces are left out.
\<close>

datatype sendto_result = Sent | WouldBlock | SendFailed

datatype rx_event = RxTimeout | RxError | RxDatagram nat "u8 list"

record env =
  host :: platform
  clock :: "nat \<Rightarrow> u64"
  sendto_results :: "nat \<Rightarrow> sendto_result"
  rx_events :: "nat \<Rightarrow> rx_event"

record world =
  clock_reads :: nat
  sendto_calls :: nat
  rx_calls :: nat
  wire :: "(nat \<times> u8 list) list"

definition bb_now_ns :: "env \<Rightarrow> world \<Rightarrow> u64 \<times> world" where
  "bb_now_ns e w = (clock e (clock_reads w), w\<lparr>clock_reads := Suc (clock_reads w)\<rparr>)"

definition sendto :: "env \<Rightarrow> world \<Rightarrow> nat \<Rightarrow> u8 list \<Rightarrow> sendto_result \<times> world" where
  "sendto e w peer_addr b =
     (let r = sendto_results e (sendto_calls w);
          w' = w\<lparr>sendto_calls := Suc (sendto_calls w)\<rparr>
      in (r, if r = Sent then w'\<lparr>wire := wire w' @ [(peer_addr, b)]\<rparr> else w'))"

section \<open>Unreliable channel (bb\_channel.h, bb\_channel.c)\<close>

text \<open>
  The configuration fields are C doubles. They are modelled as reals: the value of
  \<^verbatim>\<open>frand01\<close> is a multiple of \<open>2\<^sup>-\<^sup>5\<^sup>3\<close> below 1 and is exact in a double; the
  quotients and products formed from the configuration are taken without rounding.
\<close>

record bb_channel_cfg_t =
  loss_pct :: real
  dup_pct :: real
  reorder_pct :: real
  delay_mean_ms :: real
  delay_jitter_ms :: real
  rate_mbps :: real
  seed :: u64

text \<open>A queued frame: the heap copy of the bytes (its length is \<open>n\<close>) and its ready time.\<close>

record bb_frame_t =
  frame_buf :: "u8 list"
  ready_ts :: u64

text \<open>
  The channel instance. The singly linked queue \<open>q_head .. q_tail\<close> is the list
  \<open>queue\<close>, head first; the peer address is an opaque number.
\<close>

record bb_channel_s =
  sockfd :: int
  peer :: nat
  chan_cfg :: bb_channel_cfg_t
  now :: u64
  token_ns_per_byte :: u64
  next_tx_ts :: u64
  queue :: "bb_frame_t list"
  rng :: u64

definition xorshift64 :: "u64 \<Rightarrow> u64" where
  "xorshift64 s =
     (let x = s;
          x = x XOR push_bit 13 x;
          x = x XOR drop_bit 7 x;
          x = x XOR push_bit 17 x
      in x)"

text \<open>\<^verbatim>\<open>frand01\<close> returns the uniform double and leaves the new state in \<open>*s\<close>.\<close>

definition frand01 :: "u64 \<Rightarrow> real \<times> u64" where
  "frand01 s =
     (let x = xorshift64 s
      in (real_of_int (uint (drop_bit 11 x)) * (1 / 9007199254740992), x))"

text \<open>\<^verbatim>\<open>(uint64_t)(ms*1e6)\<close>: the conversion truncates; it is only applied to \<open>ms \<ge> 0\<close>.\<close>

definition ms2ns :: "real \<Rightarrow> u64" where
  "ms2ns ms = of_int \<lfloor>ms * 1000000\<rfloor>"

definition bb_channel_create :: "int \<Rightarrow> nat \<Rightarrow> bb_channel_cfg_t \<Rightarrow> bb_channel_s" where
  "bb_channel_create fd peer_addr cfg =
     \<lparr> sockfd = fd, peer = peer_addr, chan_cfg = cfg, now = 0,
       token_ns_per_byte =
         (if rate_mbps cfg > 0 then of_int \<lfloor>(8 / rate_mbps cfg) * 1000\<rfloor> else 0),
       next_tx_ts = 0, queue = [],
       rng = (if seed cfg \<noteq> 0 then seed cfg else 0xC0FFEE1234) \<rparr>"

definition jittered_delay_ns :: "bb_channel_s \<Rightarrow> u64 \<times> bb_channel_s" where
  "jittered_delay_ns ch =
     (let base = delay_mean_ms (chan_cfg ch);
          r = frand01 (rng ch);
          jitter = (fst r * 2 - 1) * delay_jitter_ms (chan_cfg ch);
          ms = max 0 (base + jitter)
      in (ms2ns ms, ch\<lparr>rng := snd r\<rparr>))"

definition decide :: "real \<Rightarrow> u64 \<Rightarrow> bool \<times> u64" where
  "decide pct s = (let r = frand01 s in (fst r < pct / 100, snd r))"

definition enqueue_out :: "bb_channel_s \<Rightarrow> u8 list \<Rightarrow> u64 \<Rightarrow> bb_channel_s" where
  "enqueue_out ch b ready = ch\<lparr>queue := queue ch @ [\<lparr> frame_buf = b, ready_ts = ready \<rparr>]\<rparr>"

fun swap_head :: "bb_frame_t list \<Rightarrow> bb_frame_t list" where
  "swap_head (a # b # rest) = b # a # rest"
| "swap_head fs = fs"

definition maybe_reorder :: "bb_channel_s \<Rightarrow> bb_channel_s" where
  "maybe_reorder ch =
     (if length (queue ch) < 2 then ch
      else let d = decide (reorder_pct (chan_cfg ch)) (rng ch);
               ch = ch\<lparr>rng := snd d\<rparr>
           in if \<not> fst d then ch else ch\<lparr>queue := swap_head (queue ch)\<rparr>)"

definition ABSOLUTE_CAP_NS :: u64 where
  "ABSOLUTE_CAP_NS = ms2ns 150"

text \<open>
  The first loop of \<^verbatim>\<open>bb_channel_send\<close>: sleep in chunks of at most 5 ms until the head
  frame is ready or 150 ms have been waited.
\<close>

function wait_head :: "env \<Rightarrow> bb_channel_s \<Rightarrow> world \<Rightarrow> u64 \<Rightarrow> bb_channel_s \<times> world" where
  "wait_head e ch w waited =
     (case queue ch of
        [] \<Rightarrow> (ch, w)
      | f # fs \<Rightarrow>
          let t = bb_now_ns e w;
              ch = ch\<lparr>now := fst t\<rparr>;
              w = snd t
          in if ready_ts f \<le> now ch then (ch, w)
             else let remain = ready_ts f - now ch
                  in if waited \<ge> ABSOLUTE_CAP_NS then (ch, w)
                     else let remain = (if remain > ms2ns 5 then ms2ns 5 else remain)
                          in wait_head e ch w (waited + remain))"
  by pat_completeness auto
termination
proof (relation "measure (\<lambda>(e, ch, w, waited). 155000000 - unat waited)")
  show "wf (measure (\<lambda>(e, ch, w, waited). 155000000 - unat waited))" by simp
next
  fix e :: env and ch :: bb_channel_s and w :: world and waited :: u64 and f fs t ch' w' remain remain'
  assume a: "ch' = ch\<lparr>now := fst t\<rparr>" "\<not> ready_ts f \<le> now ch'"
    "remain = ready_ts f - now ch'" "\<not> ABSOLUTE_CAP_NS \<le> waited"
    "remain' = (if ms2ns 5 < remain then ms2ns 5 else remain)"
  have c: "ABSOLUTE_CAP_NS = 150000000" "ms2ns 5 = 5000000"
    by (simp_all add: ABSOLUTE_CAP_NS_def ms2ns_def)
  have w: "unat waited < 150000000" using a(4) by (simp add: c word_le_nat_alt)
  have "remain \<noteq> 0" using a(2,3) by auto
  then have r0: "remain' \<noteq> 0" using a(5) by (auto simp add: c)
  then have r1: "0 < unat remain'" by (simp add: unat_gt_0)
  have r2: "unat remain' \<le> 5000000" using a(5) by (auto simp add: c word_less_nat_alt)
  have "unat (waited + remain') = unat waited + unat remain'"
    using w r2 by (simp add: unat_word_ariths)
  then show "((e, ch', w', waited + remain'), e, ch, w, waited)
        \<in> measure (\<lambda>(e, ch, w, waited). 155000000 - unat waited)"
    using w r1 r2 by simp
qed

declare wait_head.simps [simp del]

text \<open>
  The second loop: transmit ready frames from the head of the queue, subject to the
  token bucket. \<open>None\<close> is the \<^verbatim>\<open>return -1\<close> on a fatal socket error; otherwise the
  loop ends with \<open>sent_total\<close>.
\<close>

function drain :: "env \<Rightarrow> bb_channel_s \<Rightarrow> world \<Rightarrow> int \<Rightarrow> int option \<times> bb_channel_s \<times> world" where
  "drain e ch w sent_total =
     (case queue ch of
        [] \<Rightarrow> (Some sent_total, ch, w)
      | f # fs \<Rightarrow>
          let t = bb_now_ns e w;
              ch = ch\<lparr>now := fst t\<rparr>;
              w = snd t
          in if ready_ts f > now ch then (Some sent_total, ch, w)
             else if token_ns_per_byte ch \<noteq> 0 \<and> now ch < next_tx_ts ch
               then (Some sent_total, ch, w)
             else let ch = (if token_ns_per_byte ch \<noteq> 0
                            then ch\<lparr>next_tx_ts := now ch + token_ns_per_byte ch * of_nat (length (frame_buf f))\<rparr>
                            else ch);
                      s = sendto e w (peer ch) (frame_buf f);
                      w = snd s
                  in case fst s of
                       WouldBlock \<Rightarrow> (Some sent_total, ch, w)
                     | SendFailed \<Rightarrow> (None, ch, w)
                     | Sent \<Rightarrow> drain e (ch\<lparr>queue := fs\<rparr>) w (sent_total + int (length (frame_buf f))))"
  by pat_completeness auto
termination
  by (relation "measure (\<lambda>(e, ch, w, sent_total). length (queue ch))") auto

declare drain.simps [simp del]

text \<open>\<^verbatim>\<open>bb_channel_send\<close>: the returned count, the channel and the world afterwards.\<close>

definition bb_channel_send :: "env \<Rightarrow> bb_channel_s \<Rightarrow> world \<Rightarrow> u8 list \<Rightarrow> int \<times> bb_channel_s \<times> world" where
  "bb_channel_send e ch w b =
     (let t = bb_now_ns e w;
          ch = ch\<lparr>now := fst t\<rparr>;
          w = snd t;
          lost = decide (loss_pct (chan_cfg ch)) (rng ch);
          ch = ch\<lparr>rng := snd lost\<rparr>
      in if fst lost then (int (length b), ch, w)
         else let j = jittered_delay_ns ch;
                  ready = now (snd j) + fst j;
                  ch = enqueue_out (snd j) b ready;
                  dup = decide (dup_pct (chan_cfg ch)) (rng ch);
                  ch = ch\<lparr>rng := snd dup\<rparr>;
                  ch = (if fst dup then enqueue_out ch b (ready + ms2ns 1) else ch);
                  ch = maybe_reorder ch;
                  wt = wait_head e ch w 0;
                  dr = drain e (fst wt) (snd wt) 0
              in case fst dr of
                   None \<Rightarrow> (- 1, snd dr)
                 | Some sent_total \<Rightarrow>
                     (if sent_total > 0 then sent_total else int (length b), snd dr))"

text \<open>
  \<^verbatim>\<open>bb_channel_recv\<close> into a buffer of \<open>cap\<close> bytes: the return value, the bytes
  received, the channel and the world afterwards. A datagram longer than \<open>cap\<close> is cut.
\<close>

definition bb_channel_recv ::
  "env \<Rightarrow> bb_channel_s \<Rightarrow> world \<Rightarrow> nat \<Rightarrow> int \<times> u8 list \<times> bb_channel_s \<times> world" where
  "bb_channel_recv e ch w cap =
     (let ev = rx_events e (rx_calls w);
          w = w\<lparr>rx_calls := Suc (rx_calls w)\<rparr>
      in case ev of
           RxTimeout \<Rightarrow> (0, [], ch, w)
         | RxError \<Rightarrow> (- 1, [], ch, w)
         | RxDatagram from b \<Rightarrow>
             (let got = take cap b
              in (int (length got), got, if length got > 0 then ch\<lparr>peer := from\<rparr> else ch, w)))"



definition agree_chan :: "bb_channel_s \<Rightarrow> bb_channel_s \<Rightarrow> bool" where
  "agree_chan a b \<longleftrightarrow>
     chan_cfg a = chan_cfg b \<and> rng a = rng b \<and> now a = now b \<and>
     token_ns_per_byte a = token_ns_per_byte b \<and> next_tx_ts a = next_tx_ts b \<and>
     queue a = queue b"


definition chan_test :: bb_channel_s where
  "chan_test = (bb_channel_create 3 9999
     \<lparr> loss_pct = 100, dup_pct = 0, reorder_pct = 0, delay_mean_ms = 0, delay_jitter_ms = 0,
       rate_mbps = 0, seed = 1234 \<rparr>)\<lparr>queue := [\<lparr> frame_buf = [1, 2], ready_ts = 0 \<rparr>]\<rparr>"

definition env_idle :: env where
  "env_idle = \<lparr> host = pf_portable, clock = (\<lambda>i. 1000 * of_nat i), sendto_results = (\<lambda>i. Sent),
     rx_events = (\<lambda>i. RxTimeout) \<rparr>"


definition world0 :: world where
  "world0 = \<lparr> clock_reads = 0, sendto_calls = 0, rx_calls = 0, wire = [] \<rparr>"


section \<open>Transport interface (bb\_proto.h)\<close>

record bb_proto_cfg_t =
  init_seq :: u32
  wnd :: u32
  mss :: u32
  rto_ms :: u32

text \<open>
  Both engines start with the same five members: the channel they own, the
  configuration and the three sequence variables.
\<close>

record engine =
  ch :: bb_channel_s
  cfg :: bb_proto_cfg_t
  snd_una :: u32
  snd_nxt :: u32
  rcv_nxt :: u32

definition bb_next_seq :: "u32 \<Rightarrow> u32" where
  "bb_next_seq x = x + 1"

text \<open>\<^verbatim>\<open>seq_cmp\<close>: the difference \<open>a - b\<close> read as a signed 32-bit integer.\<close>

definition seq_cmp :: "u32 \<Rightarrow> u32 \<Rightarrow> int" where
  "seq_cmp a b = sint (a - b)"

section \<open>Go-Back-N engine (bb\_gbn.c)\<close>

text \<open>
  The engine state. \<open>outbuf\<close> holds the bytes \<open>outbuf[0..outlen)\<close> of the snapshot
  buffer, the only ones that are ever read; \<open>inbuf\<close> likewise holds \<open>inbuf[0..inlen)\<close>.
  The functions that are static in bb\_gbn.c, and the three entry points it shares by
  name with bb\_sr.c, carry the prefix \<open>gbn_\<close>.
\<close>

record gbn_t = engine +
  timer_ts :: u64
  timer_running :: bool
  outbuf :: "u8 list"
  outcap :: nat
  outlen :: nat
  inbuf :: "u8 list"
  incap :: nat
  inlen :: nat
  have_in :: bool

definition gbn_start_timer :: "env \<Rightarrow> gbn_t \<Rightarrow> world \<Rightarrow> gbn_t \<times> world" where
  "gbn_start_timer e s w =
     (let t = bb_now_ns e w
      in (s\<lparr>timer_ts := fst t + ucast (rto_ms (cfg s)) * 1000000, timer_running := True\<rparr>, snd t))"

text \<open>\<^verbatim>\<open>timer_running && bb_now_ns() >= timer_ts\<close>: the clock is read only when armed.\<close>

definition gbn_timer_expired :: "env \<Rightarrow> gbn_t \<Rightarrow> world \<Rightarrow> bool \<times> world" where
  "gbn_timer_expired e s w =
     (if timer_running s then (let t = bb_now_ns e w in (fst t \<ge> timer_ts s, snd t))
      else (False, w))"

text \<open>
  \<^verbatim>\<open>send_frame(s, seq, p, n)\<close>: \<open>p\<close> is the memory from the pointer on, of which
  \<^verbatim>\<open>(uint16_t)n\<close> bytes are packed.
\<close>

definition gbn_send_frame ::
  "env \<Rightarrow> gbn_t \<Rightarrow> world \<Rightarrow> u32 \<Rightarrow> u8 list \<Rightarrow> nat \<Rightarrow> int \<times> gbn_t \<times> world" where
  "gbn_send_frame e s w sq p n =
     (case bb_wire_pack (host e) 1500 BB_FLAG_DATA sq (rcv_nxt s) p (of_nat n) of
        None \<Rightarrow> (- 1, s, w)
      | Some frame \<Rightarrow>
          let r = bb_channel_send e (ch s) w frame;
              s = s\<lparr>ch := fst (snd r)\<rparr>;
              w = snd (snd r)
          in if fst r < 0 then (- 1, s, w)
             else if \<not> timer_running s then (0, gbn_start_timer e s w)
             else (0, s, w))"

text \<open>\<^verbatim>\<open>send_ack(ch, ackn)\<close>: the result of the channel is discarded.\<close>

definition gbn_send_ack :: "env \<Rightarrow> bb_channel_s \<Rightarrow> world \<Rightarrow> u32 \<Rightarrow> bb_channel_s \<times> world" where
  "gbn_send_ack e c w ackn =
     (let abuf = (case bb_wire_pack (host e) 64 BB_FLAG_ACK 0 ackn [] 0 of
                    None \<Rightarrow> [] | Some frame \<Rightarrow> frame)
      in snd (bb_channel_send e c w abuf))"

text \<open>The \<^verbatim>\<open>for\<close> loop of \<^verbatim>\<open>retransmit_window_from_snapshot\<close>, from sequence \<open>q\<close> on.\<close>

function gbn_retransmit_loop :: "env \<Rightarrow> gbn_t \<Rightarrow> world \<Rightarrow> u32 \<Rightarrow> gbn_t \<times> world" where
  "gbn_retransmit_loop e s w q =
     (if seq_cmp (snd_nxt s) q > 0
      then let off2 = unat (q - snd_una s) * unat (mss (cfg s))
           in if off2 \<ge> outlen s then (s, w)
              else let c2 = (if outlen s - off2 > unat (mss (cfg s)) then unat (mss (cfg s))
                             else outlen s - off2);
                       r = gbn_send_frame e s w q (drop off2 (outbuf s)) c2
                   in gbn_retransmit_loop e (fst (snd r)) (snd (snd r)) (q + 1)
      else (s, w))"
  by pat_completeness auto

text \<open>
  Signed differences of sequence numbers, and the fact that sending a frame changes the
  channel and the timer only: both are needed to see that the retransmission loop ends.
\<close>

lemma sint32_range: "- 2147483648 \<le> sint (a::u32) \<and> sint a < 2147483648"
  using sint_ge [of a] sint_lt [of a] by simp

lemma sint32_add:
  "- 2147483648 \<le> sint a + sint b \<Longrightarrow> sint a + sint b < 2147483648 \<Longrightarrow>
   sint (a + b :: u32) = sint a + sint b"
  by (simp add: sint_word_add signed_take_bit_int_eq_self)

lemma sint32_diff:
  "- 2147483648 \<le> sint a - sint b \<Longrightarrow> sint a - sint b < 2147483648 \<Longrightarrow>
   sint (a - b :: u32) = sint a - sint b"
  by (simp add: sint_word_diff signed_take_bit_int_eq_self)

lemma sint_minus_suc:
  assumes "0 < sint ((a::u32) - q)"
  shows "sint (a - (q + 1)) = sint (a - q) - 1"
proof -
  have e: "a - (q + 1) = (a - q) - 1" by simp
  have "sint ((a - q) - 1) = sint (a - q) - sint (1::u32)"
    using assms sint32_range [of "a - q"] by (intro sint32_diff) simp_all
  then show ?thesis unfolding e by simp
qed

lemma gbn_send_frame_engine:
  "snd_nxt (fst (snd (gbn_send_frame e s w sq p n))) = snd_nxt s \<and>
   snd_una (fst (snd (gbn_send_frame e s w sq p n))) = snd_una s \<and>
   rcv_nxt (fst (snd (gbn_send_frame e s w sq p n))) = rcv_nxt s \<and>
   cfg (fst (snd (gbn_send_frame e s w sq p n))) = cfg s"
  by (simp add: gbn_send_frame_def gbn_start_timer_def Let_def split: option.splits)

termination gbn_retransmit_loop
proof (relation "measure (\<lambda>(e, s, w, q). nat (seq_cmp (snd_nxt s) q))")
  show "wf (measure (\<lambda>(e, s, w, q). nat (seq_cmp (snd_nxt s) q)))" by simp
next
  fix e s w q off2 c2 r
  assume a: "0 < seq_cmp (snd_nxt s) q" and r: "r = gbn_send_frame e s w q (drop off2 (outbuf s)) c2"
  have "snd_nxt (fst (snd r)) = snd_nxt s" unfolding r by (simp add: gbn_send_frame_engine)
  then show "((e, fst (snd r), snd (snd r), q + 1), e, s, w, q)
      \<in> measure (\<lambda>(e, s, w, q). nat (seq_cmp (snd_nxt s) q))"
    using a sint_minus_suc [of "snd_nxt s" q] by (simp add: seq_cmp_def)
qed

declare gbn_retransmit_loop.simps [simp del]

text \<open>
  \<^verbatim>\<open>retransmit_window_from_snapshot\<close>: with nothing outstanding or an empty snapshot the
  timer is stopped; otherwise the window is resent and the timer restarted.
\<close>

definition retransmit_window_from_snapshot :: "env \<Rightarrow> gbn_t \<Rightarrow> world \<Rightarrow> gbn_t \<times> world" where
  "retransmit_window_from_snapshot e s w =
     (if seq_cmp (snd_nxt s) (snd_una s) \<le> 0 \<or> outlen s = 0
      then (s\<lparr>timer_running := False\<rparr>, w)
      else let r = gbn_retransmit_loop e s w (snd_una s)
           in gbn_start_timer e (fst r) (snd r))"

text \<open>
  \<^verbatim>\<open>bb_proto_gbn_create\<close>: defaults for zero fields, both buffers of 64 KiB, the timer
  stopped and the latch empty (\<^verbatim>\<open>calloc\<close>).
\<close>

definition bb_proto_gbn_create :: "bb_channel_s \<Rightarrow> bb_proto_cfg_t \<Rightarrow> gbn_t" where
  "bb_proto_gbn_create c conf =
     (let conf = (if wnd conf = 0 then conf\<lparr>wnd := 32\<rparr> else conf);
          conf = (if mss conf = 0 then conf\<lparr>mss := 512\<rparr> else conf);
          conf = (if rto_ms conf = 0 then conf\<lparr>rto_ms := 120\<rparr> else conf)
      in \<lparr> ch = c, cfg = conf, snd_una = init_seq conf, snd_nxt = init_seq conf,
           rcv_nxt = init_seq conf, timer_ts = 0, timer_running = False,
           outbuf = [], outcap = 64 * 1024, outlen = 0,
           inbuf = [], incap = 64 * 1024, inlen = 0, have_in = False \<rparr>)"

text \<open>
  The \<^verbatim>\<open>while (off < len)\<close> loop of the GBN \<^verbatim>\<open>bb_proto_send\<close>. It stops when the window
  is full and returns -1 as soon as a frame cannot be sent.
\<close>

function gbn_send_loop ::
  "env \<Rightarrow> gbn_t \<Rightarrow> world \<Rightarrow> u8 list \<Rightarrow> nat \<Rightarrow> nat \<Rightarrow> int \<times> gbn_t \<times> world" where
  "gbn_send_loop e s w data n off =
     (if off < n
      then if snd_nxt s - snd_una s \<ge> wnd (cfg s) then (0, s, w)
           else let chunk = (if n - off > unat (mss (cfg s)) then unat (mss (cfg s)) else n - off);
                    r = gbn_send_frame e s w (snd_nxt s) (drop off data) chunk
                in if fst r < 0 then (- 1, snd r)
                   else gbn_send_loop e ((fst (snd r))\<lparr>snd_nxt := bb_next_seq (snd_nxt (fst (snd r)))\<rparr>)
                          (snd (snd r)) data n (off + chunk)
      else (0, s, w))"
  by pat_completeness auto

text \<open>Every round of the loop uses up one place of the window.\<close>

lemma window_room_decreases:
  assumes "\<not> (W::u32) \<le> a - b"
  shows "unat W - unat (a + 1 - b) < unat W - unat (a - b)"
proof -
  have l: "unat (a - b) < unat W" using assms by (simp add: word_le_nat_alt)
  have "unat W < 2 ^ LENGTH(32)" by (rule unsigned_less)
  then have "unat (a - b) + 1 < 4294967296" using l by simp
  then have u: "unat ((a - b) + 1) = unat (a - b) + 1" by (simp add: unat_word_ariths)
  have e: "a + 1 - b = (a - b) + 1" by simp
  show ?thesis unfolding e u using l by simp
qed

termination gbn_send_loop
proof (relation "measure (\<lambda>(e, s, w, data, n, off). unat (wnd (cfg s)) - unat (snd_nxt s - snd_una s))")
  show "wf (measure (\<lambda>(e, s, w, data, n, off). unat (wnd (cfg s)) - unat (snd_nxt s - snd_una s)))"
    by simp
next
  fix e s w data n off chunk r
  assume a: "\<not> wnd (cfg s) \<le> snd_nxt s - snd_una s"
    and r: "r = gbn_send_frame e s w (snd_nxt s) (drop off data) chunk"
  have f: "snd_nxt (fst (snd r)) = snd_nxt s" "snd_una (fst (snd r)) = snd_una s"
    "cfg (fst (snd r)) = cfg s"
    unfolding r by (simp_all add: gbn_send_frame_engine)
  show "((e, (fst (snd r))\<lparr>snd_nxt := bb_next_seq (snd_nxt (fst (snd r)))\<rparr>, snd (snd r), data, n,
          off + chunk), e, s, w, data, n, off)
      \<in> measure (\<lambda>(e, s, w, data, n, off). unat (wnd (cfg s)) - unat (snd_nxt s - snd_una s))"
    using window_room_decreases [OF a] by (simp add: f bb_next_seq_def)
qed

declare gbn_send_loop.simps [simp del]

text \<open>
  GBN \<^verbatim>\<open>bb_proto_send\<close>: the message is cut to the capacity of the snapshot buffer and
  copied there, then sent as far as the window allows.
\<close>

definition gbn_proto_send :: "env \<Rightarrow> gbn_t \<Rightarrow> world \<Rightarrow> u8 list \<Rightarrow> int \<times> gbn_t \<times> world" where
  "gbn_proto_send e s w data =
     (let n = (if length data > outcap s then outcap s else length data);
          s = s\<lparr>outbuf := take n data, outlen := n\<rparr>
      in gbn_send_loop e s w data n 0)"

text \<open>
  The block of the GBN \<^verbatim>\<open>bb_proto_recv\<close> that pumps the cumulative ACK of a parsed
  header: an ack within \<open>[snd_una, snd_nxt]\<close> becomes the new \<open>snd_una\<close>; the timer is
  stopped when nothing is left outstanding and restarted otherwise.
\<close>

definition gbn_ack_step :: "env \<Rightarrow> gbn_t \<Rightarrow> world \<Rightarrow> bb_hdr_t \<Rightarrow> gbn_t \<times> world" where
  "gbn_ack_step e s w h =
     (if seq_cmp (ack h) (snd_una s) \<ge> 0 \<and> seq_cmp (ack h) (snd_nxt s) \<le> 0
      then let s = s\<lparr>snd_una := ack h\<rparr>
           in if seq_cmp (snd_una s) (snd_nxt s) = 0 then (s\<lparr>timer_running := False\<rparr>, w)
              else gbn_start_timer e s w
      else (s, w))"

text \<open>The check made before and after polling: resend the window when the timer has expired.\<close>

definition gbn_check_rto :: "env \<Rightarrow> gbn_t \<Rightarrow> world \<Rightarrow> gbn_t \<times> world" where
  "gbn_check_rto e s w =
     (if seq_cmp (snd_nxt s) (snd_una s) > 0
      then let x = gbn_timer_expired e s w
           in if fst x then retransmit_window_from_snapshot e s (snd x) else (s, snd x)
      else (s, w))"

text \<open>
  GBN \<^verbatim>\<open>bb_proto_recv\<close> with an output buffer of \<open>cap\<close> bytes: the return value, the
  bytes written to \<open>out\<close>, the engine and the world afterwards. How long the poll waits
  is the environment's matter.
\<close>

definition gbn_proto_recv ::
  "env \<Rightarrow> gbn_t \<Rightarrow> world \<Rightarrow> nat \<Rightarrow> int \<times> u8 list \<times> gbn_t \<times> world" where
  "gbn_proto_recv e s w cap =
     (if have_in s
      then let n = (if inlen s > cap then cap else inlen s)
           in (int n, take n (inbuf s), s\<lparr>have_in := False, inlen := 0\<rparr>, w)
      else let p = gbn_check_rto e s w;
               rx = bb_channel_recv e (ch (fst p)) (snd p) 2048;
               rn = fst rx;
               ibuf = fst (snd rx);
               s = (fst p)\<lparr>ch := fst (snd (snd rx))\<rparr>;
               w = snd (snd (snd rx))
           in if rn \<le> 0
              then (if rn = 0 then let q = gbn_check_rto e s w in (rn, [], fst q, snd q)
                    else (rn, [], s, w))
              else case bb_wire_parse (host e) ibuf of
                     None \<Rightarrow> (0, [], s, w)
                   | Some (h, pl) \<Rightarrow>
                       let a = gbn_ack_step e s w h;
                           s = fst a;
                           w = snd a
                       in if flags h AND BB_FLAG_DATA = 0 then (0, [], s, w)
                          else if seq_cmp (seq h) (rcv_nxt s) \<noteq> 0
                          then let k = gbn_send_ack e (ch s) w (rcv_nxt s)
                               in (0, [], s\<lparr>ch := fst k\<rparr>, snd k)
                          else let L = (if unat (len h) > cap then cap else unat (len h));
                                   s = s\<lparr>rcv_nxt := bb_next_seq (rcv_nxt s)\<rparr>;
                                   k = gbn_send_ack e (ch s) w (rcv_nxt s)
                               in (int L, take L pl, s\<lparr>ch := fst k\<rparr>, snd k))"

text \<open>
  The states an application can bring a GBN engine into: created, then any number of
  sends and receives, each against any environment. \<^verbatim>\<open>bb_proto_close\<close> frees the engine
  and leaves no state behind. The second relation admits non-empty messages only.
\<close>

inductive gbn_reach :: "gbn_t \<Rightarrow> bool" where
  gbn_created: "gbn_reach (bb_proto_gbn_create c conf)"
| gbn_sent: "gbn_reach s \<Longrightarrow> gbn_reach (fst (snd (gbn_proto_send e s w data)))"
| gbn_received: "gbn_reach s \<Longrightarrow> gbn_reach (fst (snd (snd (gbn_proto_recv e s w cap))))"

inductive gbn_reach_nonempty :: "gbn_t \<Rightarrow> bool" where
  gbn_ne_created: "gbn_reach_nonempty (bb_proto_gbn_create c conf)"
| gbn_ne_sent:
    "gbn_reach_nonempty s \<Longrightarrow> data \<noteq> [] \<Longrightarrow> gbn_reach_nonempty (fst (snd (gbn_proto_send e s w data)))"
| gbn_ne_received:
    "gbn_reach_nonempty s \<Longrightarrow> gbn_reach_nonempty (fst (snd (snd (gbn_proto_recv e s w cap))))"

text \<open>
  Auxiliary notions for the statements about the GBN engine: the members that only
  \<^verbatim>\<open>bb_proto_send\<close> and the ACK and DATA handling of \<^verbatim>\<open>bb_proto_recv\<close> may change, the
  window invariant, and the timer invariant together with the fact it rests on (segments
  are outstanding only while the snapshot is non-empty).
\<close>

definition gbn_keeps :: "gbn_t \<Rightarrow> gbn_t \<Rightarrow> bool" where
  "gbn_keeps s s' \<longleftrightarrow>
     cfg s' = cfg s \<and> snd_una s' = snd_una s \<and> snd_nxt s' = snd_nxt s \<and>
     rcv_nxt s' = rcv_nxt s \<and> outbuf s' = outbuf s \<and> outcap s' = outcap s \<and>
     outlen s' = outlen s \<and> inbuf s' = inbuf s \<and> incap s' = incap s \<and>
     inlen s' = inlen s \<and> have_in s' = have_in s"

definition gbn_window_ok :: "gbn_t \<Rightarrow> bool" where
  "gbn_window_ok s \<longleftrightarrow>
     0 \<le> seq_cmp (snd_nxt s) (snd_una s) \<and> seq_cmp (snd_nxt s) (snd_una s) \<le> uint (wnd (cfg s))"

definition gbn_timer_ok :: "gbn_t \<Rightarrow> bool" where
  "gbn_timer_ok s \<longleftrightarrow>
     (timer_running s \<longleftrightarrow> seq_cmp (snd_una s) (snd_nxt s) < 0) \<and>
     (seq_cmp (snd_una s) (snd_nxt s) < 0 \<longrightarrow> 0 < outlen s)"

text \<open>
  The configurations, the environment and the run used in the examples: the defaults of
  the repository's client, a window that does not fit a signed 32-bit difference, a
  clock that advances one second per reading, and a sequence of calls made one after
  the other.
\<close>

definition cfg_client :: bb_proto_cfg_t where
  "cfg_client = \<lparr> init_seq = 1, wnd = 32, mss = 512, rto_ms = 150 \<rparr>"

definition cfg_wide :: bb_proto_cfg_t where
  "cfg_wide = \<lparr> init_seq = 0, wnd = 0xFFFFFFFF, mss = 1, rto_ms = 150 \<rparr>"

definition env_late :: env where
  "env_late = env_idle\<lparr>clock := (\<lambda>i. 1000000000 * of_nat i)\<rparr>"

datatype app_call = Send "u8 list" | Recv nat

fun gbn_run :: "env \<Rightarrow> gbn_t \<Rightarrow> world \<Rightarrow> app_call list \<Rightarrow> gbn_t \<times> world" where
  "gbn_run e s w [] = (s, w)"
| "gbn_run e s w (Send data # cs) =
     (let r = gbn_proto_send e s w data in gbn_run e (fst (snd r)) (snd (snd r)) cs)"
| "gbn_run e s w (Recv cap # cs) =
     (let r = gbn_proto_recv e s w cap in gbn_run e (fst (snd (snd r))) (snd (snd (snd r))) cs)"

text \<open>An environment whose socket always holds the DATA frame with sequence 1 and payload "Hi".\<close>

definition env_data :: env where
  "env_data = env_idle\<lparr>rx_events :=
     (\<lambda>i. RxDatagram 9999 [126, 177, 2, 10, 1, 0, 0, 0, 0, 0, 0, 0, 2, 0, 239, 1, 226, 24, 72, 105])\<rparr>"


text \<open>An environment whose socket always holds the ACK frame with acknowledgment number 1.\<close>

definition env_ack :: env where
  "env_ack = env_idle\<lparr>rx_events :=
     (\<lambda>i. RxDatagram 9999 [126, 177, 1, 10, 0, 0, 0, 0, 1, 0, 0, 0, 0, 0, 59, 1, 77, 21])\<rparr>"

section \<open>Properties of the frame codec\<close>

subsection \<open>Little-endian fields\<close>

lemma rd16_le16: "rd16 (le16 w) = w"
  unfolding rd16_def le16_def
  by (rule bit_word_eqI) (auto simp add: bit_simps)

lemma rd32_le32: "rd32 (le32 w) = w"
proof (rule bit_word_eqI)
  fix n assume "n < LENGTH(32)"
  then have n: "n < 32" by simp
  then consider "n < 8" | "8 \<le> n" "n < 16" | "16 \<le> n" "n < 24" | "24 \<le> n" "n < 32"
    by linarith
  then show "bit (rd32 (le32 w)) n = bit w n"
    by cases (auto simp add: rd32_def le32_def bit_simps)
qed


lemma length_le16 [simp]: "length (le16 w) = 2" by (simp add: le16_def)
lemma length_le32 [simp]: "length (le32 w) = 4" by (simp add: le32_def)

lemma length_hdr_bytes [simp]: "length (hdr_bytes h) = 18"
  by (simp add: hdr_bytes_def)

lemma hdr_of_bytes_hdr_bytes: "hdr_of_bytes (hdr_bytes h @ p) = h"
  by (simp add: hdr_of_bytes_def hdr_bytes_def rd16_le16 rd32_le32 nth_append)


lemma get_crc_set_crc: "18 \<le> length buf \<Longrightarrow> get_crc (set_crc buf c) = c"
  by (simp add: get_crc_def set_crc_def rd32_le32)

lemma set_crc_set_crc: "18 \<le> length buf \<Longrightarrow> set_crc (set_crc buf c) d = set_crc buf d"
  by (simp add: set_crc_def)

lemma set_crc_hdr_bytes: "set_crc (hdr_bytes h @ p) c = hdr_bytes (h\<lparr>crc32c := c\<rparr>) @ p"
  by (simp add: set_crc_def hdr_bytes_def)


lemma pack_eq:
  "sizeof_bb_hdr_t + unat plen \<le> cap \<Longrightarrow>
   bb_wire_pack pf cap fl sq ak payload plen =
     Some (hdr_bytes (packed_hdr pf fl sq ak payload plen) @ take (unat plen) payload)"
  by (simp add: bb_wire_pack_def Let_def set_crc_hdr_bytes packed_hdr_def)

lemma pack_None:
  "cap < sizeof_bb_hdr_t + unat plen \<Longrightarrow> bb_wire_pack pf cap fl sq ak payload plen = None"
  by (simp add: bb_wire_pack_def)

lemma parse_packed:
  assumes "unat plen \<le> length payload"
  shows "bb_wire_parse pf (hdr_bytes (packed_hdr pf fl sq ak payload plen) @ take (unat plen) payload)
         = Some (packed_hdr pf fl sq ak payload plen, take (unat plen) payload)"
proof -
  let ?h = "packed_hdr pf fl sq ak payload plen"
  let ?p = "take (unat plen) payload"
  have z: "?h\<lparr>crc32c := 0\<rparr> = \<lparr> magic = BB_MAGIC, flags = fl, hdrlen = 10, seq = sq,
          ack = ak, len = plen, crc32c = 0 \<rparr>"
    by (simp add: packed_hdr_def)
  have c: "get_crc (hdr_bytes ?h @ ?p) = crc32c ?h"
    using get_crc_set_crc [of "hdr_bytes ?h @ ?p" "crc32c ?h"]
    by (simp add: set_crc_hdr_bytes)
  have k: "wire_checksum pf (set_crc (hdr_bytes ?h @ ?p) 0) = crc32c ?h"
    by (simp add: set_crc_hdr_bytes z) (simp add: packed_hdr_def)
  have m: "magic ?h = BB_MAGIC" "len ?h = plen" by (simp_all add: packed_hdr_def)
  show ?thesis
    using assms
    by (simp add: bb_wire_parse_def sizeof_bb_hdr_t_def hdr_of_bytes_hdr_bytes c k m Let_def)
qed


subsection \<open>CRC32C detects a changed byte\<close>










lemma not_inj_word: "NOT (a::u32) = NOT b \<Longrightarrow> a = b"
  by simp



subsection \<open>Fletcher-32 detects a changed byte\<close>





















subsection \<open>Corrupted frames\<close>










section \<open>Properties of the channel\<close>

subsection \<open>The uniform double\<close>

lemma uint_drop11: "uint (drop_bit 11 (x::u64)) = uint x div 2048"
proof -
  have "unat (drop_bit 11 x) = drop_bit 11 (unat x)" by (rule unat_drop_bit_eq)
  also have "\<dots> = unat x div 2 ^ 11" by (rule drop_bit_eq_div)
  finally have e: "unat (drop_bit 11 x) = unat x div 2048" by simp
  have "uint (drop_bit 11 x) = int (unat (drop_bit 11 x))" by (rule uint_nat)
  also have "\<dots> = int (unat x div 2048)" by (simp only: e)
  also have "\<dots> = int (unat x) div int 2048" by (rule zdiv_int)
  also have "\<dots> = uint x div int 2048" by (simp only: uint_nat)
  finally show ?thesis by simp
qed

lemma uint_drop11_lt: "uint (drop_bit 11 (x::u64)) < 9007199254740992"
proof -
  have "uint x < 2 ^ LENGTH(64)" by (rule uint_lt2p)
  then have "uint x < 18446744073709551616" by simp
  then show ?thesis unfolding uint_drop11 by simp
qed

lemma frand01_range: "0 \<le> fst (frand01 s) \<and> fst (frand01 s) < 1"
proof -
  define k where "k = uint (drop_bit 11 (xorshift64 s))"
  have "k < 9007199254740992" unfolding k_def by (rule uint_drop11_lt)
  then have u: "real_of_int k < 9007199254740992" by simp
  have "0 \<le> k" unfolding k_def by (rule uint_ge_0)
  then have l: "0 \<le> real_of_int k" by simp
  have "fst (frand01 s) = real_of_int k * (1 / 9007199254740992)"
    by (simp only: frand01_def Let_def fst_conv k_def)
  then show ?thesis using u l by simp
qed

lemma decide_100: "fst (decide 100 s)"
  using frand01_range [of s] by (simp add: decide_def Let_def)

subsection \<open>Channels that differ in socket and peer only\<close>

lemma agree_chan_refl: "agree_chan a a" by (simp add: agree_chan_def)




lemma agree_chanD:
  "agree_chan a b \<Longrightarrow> chan_cfg b = chan_cfg a \<and> rng b = rng a \<and> now b = now a \<and>
     token_ns_per_byte b = token_ns_per_byte a \<and> next_tx_ts b = next_tx_ts a \<and> queue b = queue a"
  by (simp add: agree_chan_def)







section \<open>Lemmas about the Go-Back-N engine\<close>

subsection \<open>What the channel leaves alone\<close>

lemma wait_head_world:
  "rx_calls (snd (wait_head e c w t)) = rx_calls w \<and> wire (snd (wait_head e c w t)) = wire w \<and>
   sendto_calls (snd (wait_head e c w t)) = sendto_calls w"
proof (induction e c w t rule: wait_head.induct)
  case (1 e c w waited)
  show ?case
  proof (cases "queue c")
    case Nil
    then show ?thesis by (subst (1 2 3) wait_head.simps) simp
  next
    case (Cons f fs)
    define t where "t = bb_now_ns e w"
    define c1 where "c1 = c\<lparr>now := fst t\<rparr>"
    define remain where "remain = ready_ts f - now c1"
    define remain' where "remain' = (if ms2ns 5 < remain then ms2ns 5 else remain)"
    have tw: "rx_calls (snd t) = rx_calls w" "wire (snd t) = wire w" "sendto_calls (snd t) = sendto_calls w"
      by (simp_all add: t_def bb_now_ns_def)
    have u: "wait_head e c w waited =
       (if ready_ts f \<le> now c1 then (c1, snd t)
        else if waited \<ge> ABSOLUTE_CAP_NS then (c1, snd t)
        else wait_head e c1 (snd t) (waited + remain'))"
      apply (subst wait_head.simps)
      apply (simp only: Cons list.case Let_def)
      apply (fold t_def)
      apply (fold c1_def)
      apply (fold remain_def)
      apply (fold remain'_def)
      apply (rule refl)
      done
    show ?thesis
    proof (cases "ready_ts f \<le> now c1 \<or> waited \<ge> ABSOLUTE_CAP_NS")
      case True
      then show ?thesis using tw by (auto simp add: u)
    next
      case False
      then have c: "\<not> ready_ts f \<le> now c1" "\<not> ABSOLUTE_CAP_NS \<le> waited" by auto
      show ?thesis
        using "1.IH" [OF Cons t_def c1_def refl c(1) remain_def c(2) remain'_def] c tw
        by (simp add: u)
    qed
  qed
qed


lemma drain_world: "rx_calls (snd (snd (drain e c w t))) = rx_calls w"
proof (induction e c w t rule: drain.induct)
  case (1 e c w total)
  show ?case
  proof (cases "queue c")
    case Nil
    then show ?thesis by (subst drain.simps) simp
  next
    case (Cons f fs)
    define t where "t = bb_now_ns e w"
    define c1 where "c1 = c\<lparr>now := fst t\<rparr>"
    define c2 where "c2 = (if token_ns_per_byte c1 \<noteq> 0
          then c1\<lparr>next_tx_ts := now c1 + token_ns_per_byte c1 * of_nat (length (frame_buf f))\<rparr>
          else c1)"
    define s where "s = sendto e (snd t) (peer c2) (frame_buf f)"
    have tw: "rx_calls (snd t) = rx_calls w" by (simp add: t_def bb_now_ns_def)
    have sw: "rx_calls (snd s) = rx_calls w" using tw by (simp add: s_def sendto_def Let_def)
    have u: "drain e c w total =
       (if ready_ts f > now c1 then (Some total, c1, snd t)
        else if token_ns_per_byte c1 \<noteq> 0 \<and> now c1 < next_tx_ts c1 then (Some total, c1, snd t)
        else case fst s of
               WouldBlock \<Rightarrow> (Some total, c2, snd s)
             | SendFailed \<Rightarrow> (None, c2, snd s)
             | Sent \<Rightarrow> drain e (c2\<lparr>queue := fs\<rparr>) (snd s) (total + int (length (frame_buf f))))"
      apply (subst drain.simps)
      apply (simp only: Cons list.case Let_def)
      apply (fold t_def)
      apply (fold c1_def)
      apply (fold c2_def)
      apply (fold s_def)
      apply (rule refl)
      done
    show ?thesis
    proof (cases "ready_ts f > now c1 \<or> (token_ns_per_byte c1 \<noteq> 0 \<and> now c1 < next_tx_ts c1)")
      case True
      then have "drain e c w total = (Some total, c1, snd t)" by (auto simp add: u)
      then show ?thesis using tw by simp
    next
      case False
      then have c: "\<not> now c1 < ready_ts f" "\<not> (token_ns_per_byte c1 \<noteq> 0 \<and> now c1 < next_tx_ts c1)"
        by auto
      have u': "drain e c w total = (case fst s of
               WouldBlock \<Rightarrow> (Some total, c2, snd s)
             | SendFailed \<Rightarrow> (None, c2, snd s)
             | Sent \<Rightarrow> drain e (c2\<lparr>queue := fs\<rparr>) (snd s) (total + int (length (frame_buf f))))"
        unfolding u by (simp only: c if_False)
      show ?thesis
      proof (cases "fst s")
        case Sent
        show ?thesis
          using "1.IH" [OF Cons t_def c1_def refl c(1) c(2) c2_def s_def refl Sent] sw Sent
          by (simp add: u')
      next
        case WouldBlock
        then show ?thesis using sw by (simp add: u')
      next
        case SendFailed
        then show ?thesis using sw by (simp add: u')
      qed
    qed
  qed
qed

lemma bb_channel_send_rx: "rx_calls (snd (snd (bb_channel_send e c w b))) = rx_calls w"
proof -
  have t: "rx_calls (snd (bb_now_ns e w)) = rx_calls w" by (simp add: bb_now_ns_def)
  show ?thesis
    by (simp add: bb_channel_send_def Let_def drain_world wait_head_world t split: option.splits)
qed

lemma bb_channel_send_ret: "fst (bb_channel_send e c w b) < 0 \<or> 0 \<le> fst (bb_channel_send e c w b)"
  by linarith

subsection \<open>Signed comparison of sequence numbers\<close>

lemma uint32_small_sint:
  assumes "uint (a::u32) < 2147483648"
  shows "sint a = uint a"
proof -
  have "- (2 ^ 31) \<le> uint a" by (rule order_trans [OF _ uint_ge_0]) simp
  moreover have "uint a < 2 ^ 31" using assms by simp
  ultimately have "signed_take_bit 31 (uint a) = uint a"
    by (rule signed_take_bit_int_eq_self)
  then show ?thesis by (simp add: sint_uint)
qed

lemma sint32_nonneg_uint: "0 \<le> sint (a::u32) \<Longrightarrow> uint a = sint a"
  using sint32_range [of a] by (simp add: uint_sint take_bit_int_eq_self)

lemma sint32_neg_swap:
  assumes "0 \<le> sint ((a::u32) - b)"
  shows "sint (b - a) = - sint (a - b)"
proof -
  have "sint (0 - (a - b)) = sint (0::u32) - sint (a - b)"
    using assms sint32_range [of "a - b"] by (intro sint32_diff) simp_all
  then show ?thesis by simp
qed

lemma seq_cmp_swap: "0 \<le> seq_cmp a b \<Longrightarrow> seq_cmp b a = - seq_cmp a b"
  unfolding seq_cmp_def by (rule sint32_neg_swap)

lemma seq_cmp_eq0: "seq_cmp a b = 0 \<longleftrightarrow> a = b"
proof
  assume "seq_cmp a b = 0"
  then have "sint (a - b) = sint (0::u32)" by (simp add: seq_cmp_def)
  then have "a - b = 0" by (simp add: signed_eq_0_iff)
  then show "a = b" by simp
qed (simp add: seq_cmp_def)

lemma window_step:
  assumes "\<not> (W::u32) \<le> n - u" "W \<le> 0x7fffffff"
  shows "0 < seq_cmp (n + 1) u \<and> seq_cmp (n + 1) u \<le> uint W"
proof -
  have l: "uint (n - u) < uint W" using assms(1) by (simp add: word_le_def)
  have w: "uint W \<le> 2147483647" using assms(2) by (simp add: word_le_def)
  have "uint ((n - u) + 1) = (uint (n - u) + 1) mod 2 ^ 32"
    by (simp add: uint_word_ariths)
  also have "\<dots> = uint (n - u) + 1" using l w by simp
  finally have u: "uint ((n - u) + 1) = uint (n - u) + 1" .
  have s: "sint ((n - u) + 1) = uint (n - u) + 1"
    using l w u by (simp add: uint32_small_sint)
  have e: "n + 1 - u = (n - u) + 1" by simp
  have "(0::int) < uint (n - u) + 1" by (rule order_le_less_trans [OF uint_ge_0 [of "n - u"]]) simp
  then show ?thesis unfolding seq_cmp_def e s using l by linarith
qed

lemma ack_window:
  assumes "0 \<le> seq_cmp k u" "seq_cmp k n \<le> 0" "0 \<le> seq_cmp n u"
  shows "0 \<le> seq_cmp n k \<and> seq_cmp n k \<le> seq_cmp n u \<and> seq_cmp n k = seq_cmp n u - seq_cmp k u"
proof -
  have d1: "sint ((k - u) - (n - u)) = sint (k - u) - sint (n - u)"
    using assms(1,3) sint32_range [of "k - u"] sint32_range [of "n - u"]
    by (intro sint32_diff) (simp_all add: seq_cmp_def)
  have d2: "sint ((n - u) - (k - u)) = sint (n - u) - sint (k - u)"
    using assms(1,3) sint32_range [of "k - u"] sint32_range [of "n - u"]
    by (intro sint32_diff) (simp_all add: seq_cmp_def)
  have e1: "(k - u) - (n - u) = k - n" by simp
  have e2: "(n - u) - (k - u) = n - k" by simp
  show ?thesis using d1 d2 assms unfolding e1 e2 by (simp add: seq_cmp_def)
qed

subsection \<open>The parts of the GBN engine\<close>

lemma gbn_keeps_refl: "gbn_keeps s s" by (simp add: gbn_keeps_def)

lemma gbn_keeps_trans: "gbn_keeps a b \<Longrightarrow> gbn_keeps b c \<Longrightarrow> gbn_keeps a c"
  by (simp add: gbn_keeps_def)

lemma gbn_start_timer_facts:
  "gbn_keeps s (fst (gbn_start_timer e s w)) \<and> timer_running (fst (gbn_start_timer e s w)) \<and>
   rx_calls (snd (gbn_start_timer e s w)) = rx_calls w"
  by (simp add: gbn_start_timer_def Let_def gbn_keeps_def bb_now_ns_def)

lemma gbn_send_frame_facts:
  "gbn_keeps s (fst (snd (gbn_send_frame e s w sq p n))) \<and>
   rx_calls (snd (snd (gbn_send_frame e s w sq p n))) = rx_calls w \<and>
   (fst (gbn_send_frame e s w sq p n) = 0 \<or> fst (gbn_send_frame e s w sq p n) = - 1) \<and>
   (fst (gbn_send_frame e s w sq p n) = 0 \<longrightarrow> timer_running (fst (snd (gbn_send_frame e s w sq p n)))) \<and>
   (fst (gbn_send_frame e s w sq p n) = - 1 \<longrightarrow>
      timer_running (fst (snd (gbn_send_frame e s w sq p n))) = timer_running s)"
  by (simp add: gbn_send_frame_def gbn_start_timer_def Let_def gbn_keeps_def bb_now_ns_def
      bb_channel_send_rx split: option.splits)

lemma gbn_retransmit_loop_facts:
  "gbn_keeps s (fst (gbn_retransmit_loop e s w q)) \<and>
   rx_calls (snd (gbn_retransmit_loop e s w q)) = rx_calls w"
proof (induction e s w q rule: gbn_retransmit_loop.induct)
  case (1 e s w q)
  show ?case
  proof (cases "seq_cmp (snd_nxt s) q > 0 \<and> \<not> outlen s \<le> unat (q - snd_una s) * unat (mss (cfg s))")
    case False
    then have "gbn_retransmit_loop e s w q = (s, w)"
      by (subst gbn_retransmit_loop.simps) (auto simp add: Let_def)
    then show ?thesis by (simp add: gbn_keeps_refl)
  next
    case True
    define off2 where "off2 = unat (q - snd_una s) * unat (mss (cfg s))"
    define c2 where "c2 = (if outlen s - off2 > unat (mss (cfg s)) then unat (mss (cfg s))
                             else outlen s - off2)"
    define r where "r = gbn_send_frame e s w q (drop off2 (outbuf s)) c2"
    have c: "0 < seq_cmp (snd_nxt s) q" "\<not> outlen s \<le> off2" using True by (simp_all add: off2_def)
    have u: "gbn_retransmit_loop e s w q = gbn_retransmit_loop e (fst (snd r)) (snd (snd r)) (q + 1)"
      apply (subst gbn_retransmit_loop.simps)
      apply (simp only: Let_def)
      apply (fold off2_def)
      apply (fold c2_def)
      apply (fold r_def)
      apply (simp only: c if_True if_False)
      done
    have f: "gbn_keeps s (fst (snd r))" "rx_calls (snd (snd r)) = rx_calls w"
      unfolding r_def using gbn_send_frame_facts [of s e w q "drop off2 (outbuf s)" c2] by simp_all
    show ?thesis
      using "1.IH" [OF c(1) off2_def c(2) c2_def r_def] f
      by (auto simp add: u intro: gbn_keeps_trans)
  qed
qed

lemma retransmit_window_facts:
  "gbn_keeps s (fst (retransmit_window_from_snapshot e s w)) \<and>
   rx_calls (snd (retransmit_window_from_snapshot e s w)) = rx_calls w \<and>
   (timer_running (fst (retransmit_window_from_snapshot e s w)) \<longleftrightarrow>
      \<not> (seq_cmp (snd_nxt s) (snd_una s) \<le> 0 \<or> outlen s = 0))"
proof (cases "seq_cmp (snd_nxt s) (snd_una s) \<le> 0 \<or> outlen s = 0")
  case True
  then show ?thesis by (auto simp add: retransmit_window_from_snapshot_def gbn_keeps_def)
next
  case False
  define r where "r = gbn_retransmit_loop e s w (snd_una s)"
  have k: "gbn_keeps s (fst r)" "rx_calls (snd r) = rx_calls w"
    unfolding r_def using gbn_retransmit_loop_facts [of s e w "snd_una s"] by simp_all
  have u: "retransmit_window_from_snapshot e s w = gbn_start_timer e (fst r) (snd r)"
    using False by (simp add: retransmit_window_from_snapshot_def Let_def r_def)
  show ?thesis
    using False k gbn_start_timer_facts [of "fst r" e "snd r"]
    by (auto simp add: u intro: gbn_keeps_trans)
qed

lemma gbn_timer_expired_rx: "rx_calls (snd (gbn_timer_expired e s w)) = rx_calls w"
  by (simp add: gbn_timer_expired_def Let_def bb_now_ns_def)

lemma gbn_check_rto_facts:
  "gbn_keeps s (fst (gbn_check_rto e s w)) \<and> rx_calls (snd (gbn_check_rto e s w)) = rx_calls w"
  using retransmit_window_facts [of s e "snd (gbn_timer_expired e s w)"]
  by (simp add: gbn_check_rto_def Let_def gbn_keeps_refl gbn_timer_expired_rx)

lemma gbn_keeps_window_ok: "gbn_keeps s s' \<Longrightarrow> gbn_window_ok s \<Longrightarrow> gbn_window_ok s'"
  by (simp add: gbn_keeps_def gbn_window_ok_def)

lemma gbn_check_rto_timer_ok:
  assumes "gbn_window_ok s" "gbn_timer_ok s"
  shows "gbn_timer_ok (fst (gbn_check_rto e s w))"
proof (cases "seq_cmp (snd_nxt s) (snd_una s) > 0 \<and> fst (gbn_timer_expired e s w)")
  case False
  then have "fst (gbn_check_rto e s w) = s" by (auto simp add: gbn_check_rto_def Let_def)
  then show ?thesis using assms(2) by simp
next
  case True
  define s' where "s' = fst (retransmit_window_from_snapshot e s (snd (gbn_timer_expired e s w)))"
  have u: "fst (gbn_check_rto e s w) = s'" using True by (simp add: gbn_check_rto_def Let_def s'_def)
  have d: "seq_cmp (snd_una s) (snd_nxt s) < 0"
    using True seq_cmp_swap [of "snd_nxt s" "snd_una s"] by simp
  then have o: "0 < outlen s" using assms(2) by (simp add: gbn_timer_ok_def)
  have k: "gbn_keeps s s'" "timer_running s'"
    unfolding s'_def using retransmit_window_facts [of s e "snd (gbn_timer_expired e s w)"] True o
    by simp_all
  show ?thesis unfolding u using k d o by (simp add: gbn_timer_ok_def gbn_keeps_def)
qed

lemma gbn_ack_step_keeps:
  "cfg (fst (gbn_ack_step e s w h)) = cfg s \<and> snd_nxt (fst (gbn_ack_step e s w h)) = snd_nxt s \<and>
   rcv_nxt (fst (gbn_ack_step e s w h)) = rcv_nxt s \<and> ch (fst (gbn_ack_step e s w h)) = ch s \<and>
   outcap (fst (gbn_ack_step e s w h)) = outcap s \<and> outlen (fst (gbn_ack_step e s w h)) = outlen s \<and>
   have_in (fst (gbn_ack_step e s w h)) = have_in s \<and>
   rx_calls (snd (gbn_ack_step e s w h)) = rx_calls w"
  by (simp add: gbn_ack_step_def gbn_start_timer_def Let_def bb_now_ns_def)

lemma gbn_ack_step_inv:
  assumes "gbn_window_ok s"
  shows "gbn_window_ok (fst (gbn_ack_step e s w h)) \<and>
         (gbn_timer_ok s \<longrightarrow> gbn_timer_ok (fst (gbn_ack_step e s w h)))"
proof (cases "seq_cmp (ack h) (snd_una s) \<ge> 0 \<and> seq_cmp (ack h) (snd_nxt s) \<le> 0")
  case False
  then have "gbn_ack_step e s w h = (s, w)" by (auto simp add: gbn_ack_step_def)
  then show ?thesis using assms by simp
next
  case True
  have w0: "0 \<le> seq_cmp (snd_nxt s) (snd_una s)" "seq_cmp (snd_nxt s) (snd_una s) \<le> uint (wnd (cfg s))"
    using assms by (simp_all add: gbn_window_ok_def)
  have a: "0 \<le> seq_cmp (snd_nxt s) (ack h)" "seq_cmp (snd_nxt s) (ack h) \<le> seq_cmp (snd_nxt s) (snd_una s)"
    using ack_window [of "ack h" "snd_una s" "snd_nxt s"] True w0 by simp_all
  define s' where "s' = fst (gbn_ack_step e s w h)"
  have f: "snd_una s' = ack h" "snd_nxt s' = snd_nxt s" "cfg s' = cfg s" "outlen s' = outlen s"
    "timer_running s' \<longleftrightarrow> seq_cmp (ack h) (snd_nxt s) \<noteq> 0"
    using True by (simp_all add: s'_def gbn_ack_step_def gbn_start_timer_def Let_def)
  have wok: "gbn_window_ok s'" using a w0 by (simp add: gbn_window_ok_def f)
  have tok: "gbn_timer_ok s'" if t: "gbn_timer_ok s"
  proof -
    have r: "timer_running s' \<longleftrightarrow> seq_cmp (ack h) (snd_nxt s) < 0" using True by (auto simp add: f)
    have "0 < outlen s" if n: "seq_cmp (ack h) (snd_nxt s) < 0"
    proof -
      have "seq_cmp (ack h) (snd_nxt s) = - seq_cmp (snd_nxt s) (ack h)"
        using seq_cmp_swap [OF a(1)] .
      then have "0 < seq_cmp (snd_nxt s) (snd_una s)" using n a(2) by simp
      then have "seq_cmp (snd_una s) (snd_nxt s) < 0" using seq_cmp_swap [OF w0(1)] by simp
      then show ?thesis using t by (simp add: gbn_timer_ok_def)
    qed
    then show ?thesis using r by (simp add: gbn_timer_ok_def f)
  qed
  show ?thesis using wok tok by (simp add: s'_def)
qed

lemma gbn_send_loop_facts:
  "cfg (fst (snd (gbn_send_loop e s w data n off))) = cfg s \<and>
   snd_una (fst (snd (gbn_send_loop e s w data n off))) = snd_una s \<and>
   outcap (fst (snd (gbn_send_loop e s w data n off))) = outcap s \<and>
   outlen (fst (snd (gbn_send_loop e s w data n off))) = outlen s \<and>
   have_in (fst (snd (gbn_send_loop e s w data n off))) = have_in s \<and>
   rx_calls (snd (snd (gbn_send_loop e s w data n off))) = rx_calls w \<and>
   (wnd (cfg s) \<le> 0x7fffffff \<longrightarrow> gbn_window_ok s \<longrightarrow>
      gbn_window_ok (fst (snd (gbn_send_loop e s w data n off))) \<and>
      (gbn_timer_ok s \<longrightarrow> 0 < outlen s \<longrightarrow> gbn_timer_ok (fst (snd (gbn_send_loop e s w data n off)))))"
proof (induction e s w data n off rule: gbn_send_loop.induct)
  case (1 e s w data n off)
  show ?case
  proof (cases "off < n \<and> \<not> wnd (cfg s) \<le> snd_nxt s - snd_una s")
    case False
    then have "gbn_send_loop e s w data n off = (0, s, w)"
      by (subst gbn_send_loop.simps) auto
    then show ?thesis by simp
  next
    case True
    then have c: "off < n" "\<not> wnd (cfg s) \<le> snd_nxt s - snd_una s" by simp_all
    define chunk where "chunk = (if n - off > unat (mss (cfg s)) then unat (mss (cfg s)) else n - off)"
    define r where "r = gbn_send_frame e s w (snd_nxt s) (drop off data) chunk"
    define s2 where "s2 = (fst (snd r))\<lparr>snd_nxt := bb_next_seq (snd_nxt (fst (snd r)))\<rparr>"
    have u: "gbn_send_loop e s w data n off =
        (if fst r < 0 then (- 1, snd r) else gbn_send_loop e s2 (snd (snd r)) data n (off + chunk))"
      apply (subst gbn_send_loop.simps)
      apply (simp only: Let_def)
      apply (fold chunk_def)
      apply (fold r_def)
      apply (fold s2_def)
      apply (simp only: c if_True if_False)
      done
    have f: "gbn_keeps s (fst (snd r))" "rx_calls (snd (snd r)) = rx_calls w"
      "fst r = 0 \<or> fst r = - 1" "fst r = 0 \<longrightarrow> timer_running (fst (snd r))"
      "fst r = - 1 \<longrightarrow> timer_running (fst (snd r)) = timer_running s"
      unfolding r_def using gbn_send_frame_facts [of s e w "snd_nxt s" "drop off data" chunk]
      by simp_all
    show ?thesis
    proof (cases "fst r < 0")
      case True
      then have x: "gbn_send_loop e s w data n off = (- 1, snd r)" by (simp add: u)
      have m: "fst r = - 1" using True f(3) by auto
      have "gbn_timer_ok (fst (snd r))" if "gbn_timer_ok s"
        using that f(1) f(5) m by (simp add: gbn_timer_ok_def gbn_keeps_def)
      then show ?thesis
        using f(1) f(2) gbn_keeps_window_ok [OF f(1)] by (simp add: x gbn_keeps_def)
    next
      case False
      then have z: "fst r = 0" using f(3) by auto
      have x: "gbn_send_loop e s w data n off = gbn_send_loop e s2 (snd (snd r)) data n (off + chunk)"
        using False by (simp add: u)
      have k: "cfg s2 = cfg s" "snd_una s2 = snd_una s" "outcap s2 = outcap s" "outlen s2 = outlen s"
        "have_in s2 = have_in s" "snd_nxt s2 = snd_nxt s + 1" "timer_running s2"
        using f(1) f(4) z by (simp_all add: s2_def gbn_keeps_def bb_next_seq_def)
      have ih: "cfg (fst (snd (gbn_send_loop e s2 (snd (snd r)) data n (off + chunk)))) = cfg s2 \<and>
   snd_una (fst (snd (gbn_send_loop e s2 (snd (snd r)) data n (off + chunk)))) = snd_una s2 \<and>
   outcap (fst (snd (gbn_send_loop e s2 (snd (snd r)) data n (off + chunk)))) = outcap s2 \<and>
   outlen (fst (snd (gbn_send_loop e s2 (snd (snd r)) data n (off + chunk)))) = outlen s2 \<and>
   have_in (fst (snd (gbn_send_loop e s2 (snd (snd r)) data n (off + chunk)))) = have_in s2 \<and>
   rx_calls (snd (snd (gbn_send_loop e s2 (snd (snd r)) data n (off + chunk)))) = rx_calls (snd (snd r)) \<and>
   (wnd (cfg s2) \<le> 0x7fffffff \<longrightarrow> gbn_window_ok s2 \<longrightarrow>
      gbn_window_ok (fst (snd (gbn_send_loop e s2 (snd (snd r)) data n (off + chunk)))) \<and>
      (gbn_timer_ok s2 \<longrightarrow> 0 < outlen s2 \<longrightarrow>
         gbn_timer_ok (fst (snd (gbn_send_loop e s2 (snd (snd r)) data n (off + chunk))))))"
        by (rule "1.IH" [OF c(1) c(2) chunk_def r_def False, folded s2_def])
      have inv2: "gbn_window_ok s2 \<and> (0 < outlen s \<longrightarrow> gbn_timer_ok s2)"
        if small: "wnd (cfg s) \<le> 0x7fffffff"
      proof -
        have ws: "0 < seq_cmp (snd_nxt s + 1) (snd_una s)"
          "seq_cmp (snd_nxt s + 1) (snd_una s) \<le> uint (wnd (cfg s))"
          using window_step [OF c(2) small] by simp_all
        then have "seq_cmp (snd_una s) (snd_nxt s + 1) < 0"
          using seq_cmp_swap [of "snd_nxt s + 1" "snd_una s"] by simp
        then show ?thesis using ws k by (simp add: gbn_window_ok_def gbn_timer_ok_def)
      qed
      show ?thesis unfolding x using ih inv2 k f(2) by simp
    qed
  qed
qed

lemma gbn_proto_send_facts:
  "cfg (fst (snd (gbn_proto_send e s w data))) = cfg s \<and>
   outcap (fst (snd (gbn_proto_send e s w data))) = outcap s \<and>
   have_in (fst (snd (gbn_proto_send e s w data))) = have_in s \<and>
   (wnd (cfg s) \<le> 0x7fffffff \<longrightarrow> gbn_window_ok s \<longrightarrow>
      gbn_window_ok (fst (snd (gbn_proto_send e s w data))) \<and>
      (gbn_timer_ok s \<longrightarrow> data \<noteq> [] \<longrightarrow> 0 < outcap s \<longrightarrow>
         gbn_timer_ok (fst (snd (gbn_proto_send e s w data)))))"
proof -
  define n where "n = (if length data > outcap s then outcap s else length data)"
  define s1 where "s1 = s\<lparr>outbuf := take n data, outlen := n\<rparr>"
  have u: "gbn_proto_send e s w data = gbn_send_loop e s1 w data n 0"
    by (simp add: gbn_proto_send_def Let_def n_def s1_def)
  have k: "cfg s1 = cfg s" "outcap s1 = outcap s" "have_in s1 = have_in s" "outlen s1 = n"
    "gbn_window_ok s1 = gbn_window_ok s"
    by (simp_all add: s1_def gbn_window_ok_def)
  have t: "gbn_timer_ok s1" if "gbn_timer_ok s" "0 < n"
    using that by (simp add: s1_def gbn_timer_ok_def)
  have p: "0 < n" if "data \<noteq> []" "0 < outcap s" using that by (simp add: n_def)
  show ?thesis unfolding u
    using gbn_send_loop_facts [of e s1 w data n 0] k t p by auto
qed

lemma gbn_ok_updates:
  "gbn_window_ok (s\<lparr>ch := c\<rparr>) = gbn_window_ok s"
  "gbn_window_ok (s\<lparr>rcv_nxt := x\<rparr>) = gbn_window_ok s"
  "gbn_timer_ok (s\<lparr>ch := c\<rparr>) = gbn_timer_ok s"
  "gbn_timer_ok (s\<lparr>rcv_nxt := x\<rparr>) = gbn_timer_ok s"
  by (simp_all add: gbn_window_ok_def gbn_timer_ok_def)

lemma gbn_keeps_timer_ok:
  "gbn_keeps s s' \<Longrightarrow> timer_running s' = timer_running s \<Longrightarrow> gbn_timer_ok s' = gbn_timer_ok s"
  by (simp add: gbn_keeps_def gbn_timer_ok_def)

lemma gbn_check_rto_window_ok: "gbn_window_ok s \<Longrightarrow> gbn_window_ok (fst (gbn_check_rto e s w))"
  using gbn_check_rto_facts [of s e w] by (auto intro: gbn_keeps_window_ok)

lemma gbn_check_rto_fields:
  "cfg (fst (gbn_check_rto e s w)) = cfg s" "outcap (fst (gbn_check_rto e s w)) = outcap s"
  "have_in (fst (gbn_check_rto e s w)) = have_in s"
  "rx_calls (snd (gbn_check_rto e s w)) = rx_calls w"
  using gbn_check_rto_facts [of s e w] by (simp_all add: gbn_keeps_def)

lemma gbn_ack_step_fields:
  "cfg (fst (gbn_ack_step e s w h)) = cfg s" "outcap (fst (gbn_ack_step e s w h)) = outcap s"
  "have_in (fst (gbn_ack_step e s w h)) = have_in s"
  using gbn_ack_step_keeps [of e s w h] by simp_all

text \<open>The state in which the GBN receive path handles a parsed frame, and what it does with it.\<close>

lemma gbn_proto_recv_stages:
  assumes "\<not> have_in s" "p = gbn_check_rto e s w"
    "rx = bb_channel_recv e (ch (fst p)) (snd p) 2048"
    "s1 = (fst p)\<lparr>ch := fst (snd (snd rx))\<rparr>" "w1 = snd (snd (snd rx))"
  shows "gbn_proto_recv e s w cap =
     (if fst rx \<le> 0
      then (if fst rx = 0 then (fst rx, [], fst (gbn_check_rto e s1 w1), snd (gbn_check_rto e s1 w1))
            else (fst rx, [], s1, w1))
      else case bb_wire_parse (host e) (fst (snd rx)) of
             None \<Rightarrow> (0, [], s1, w1)
           | Some (h, pl) \<Rightarrow>
               if flags h AND BB_FLAG_DATA = 0
               then (0, [], fst (gbn_ack_step e s1 w1 h), snd (gbn_ack_step e s1 w1 h))
               else if seq_cmp (seq h) (rcv_nxt (fst (gbn_ack_step e s1 w1 h))) \<noteq> 0
               then (0, [], (fst (gbn_ack_step e s1 w1 h))\<lparr>ch := fst (gbn_send_ack e
                         (ch (fst (gbn_ack_step e s1 w1 h))) (snd (gbn_ack_step e s1 w1 h))
                         (rcv_nxt (fst (gbn_ack_step e s1 w1 h))))\<rparr>,
                     snd (gbn_send_ack e (ch (fst (gbn_ack_step e s1 w1 h))) (snd (gbn_ack_step e s1 w1 h))
                         (rcv_nxt (fst (gbn_ack_step e s1 w1 h)))))
               else (int (if unat (len h) > cap then cap else unat (len h)),
                     take (if unat (len h) > cap then cap else unat (len h)) pl,
                     (fst (gbn_ack_step e s1 w1 h))\<lparr>rcv_nxt := bb_next_seq (rcv_nxt (fst (gbn_ack_step e s1 w1 h))),
                        ch := fst (gbn_send_ack e
                         (ch ((fst (gbn_ack_step e s1 w1 h))\<lparr>rcv_nxt := bb_next_seq (rcv_nxt (fst (gbn_ack_step e s1 w1 h)))\<rparr>))
                         (snd (gbn_ack_step e s1 w1 h))
                         (rcv_nxt ((fst (gbn_ack_step e s1 w1 h))\<lparr>rcv_nxt := bb_next_seq (rcv_nxt (fst (gbn_ack_step e s1 w1 h)))\<rparr>)))\<rparr>,
                     snd (gbn_send_ack e
                         (ch ((fst (gbn_ack_step e s1 w1 h))\<lparr>rcv_nxt := bb_next_seq (rcv_nxt (fst (gbn_ack_step e s1 w1 h)))\<rparr>))
                         (snd (gbn_ack_step e s1 w1 h))
                         (rcv_nxt ((fst (gbn_ack_step e s1 w1 h))\<lparr>rcv_nxt := bb_next_seq (rcv_nxt (fst (gbn_ack_step e s1 w1 h)))\<rparr>)))))"
  unfolding assms(2-) gbn_proto_recv_def Let_def using assms(1) by (simp only: if_False)


lemma bb_channel_recv_datagram:
  assumes "0 < fst (bb_channel_recv e c w cap)"
  shows "\<exists>from b. rx_events e (rx_calls w) = RxDatagram from b \<and>
           fst (snd (bb_channel_recv e c w cap)) = take cap b"
  using assms by (auto simp add: bb_channel_recv_def Let_def split: rx_event.splits)

lemma gbn_proto_recv_facts:
  assumes "\<not> have_in s"
  shows "\<not> have_in (fst (snd (snd (gbn_proto_recv e s w cap)))) \<and>
         cfg (fst (snd (snd (gbn_proto_recv e s w cap)))) = cfg s \<and>
         outcap (fst (snd (snd (gbn_proto_recv e s w cap)))) = outcap s \<and>
         (gbn_window_ok s \<longrightarrow>
            gbn_window_ok (fst (snd (snd (gbn_proto_recv e s w cap)))) \<and>
            (gbn_timer_ok s \<longrightarrow> gbn_timer_ok (fst (snd (snd (gbn_proto_recv e s w cap))))))"
proof -
  define p where "p = gbn_check_rto e s w"
  define rx where "rx = bb_channel_recv e (ch (fst p)) (snd p) 2048"
  define s1 where "s1 = (fst p)\<lparr>ch := fst (snd (snd rx))\<rparr>"
  define w1 where "w1 = snd (snd (snd rx))"
  note u = gbn_proto_recv_stages [OF assms p_def rx_def s1_def w1_def, of cap]
  have k1: "\<not> have_in s1" "cfg s1 = cfg s" "outcap s1 = outcap s"
    using assms by (simp_all add: s1_def p_def gbn_check_rto_fields)
  have i1: "gbn_window_ok s1" if "gbn_window_ok s"
    using that by (simp add: s1_def p_def gbn_ok_updates gbn_check_rto_window_ok)
  have t1: "gbn_timer_ok s1" if "gbn_window_ok s" "gbn_timer_ok s"
    using that by (simp add: s1_def p_def gbn_ok_updates gbn_check_rto_timer_ok)
  have a: "\<not> have_in (fst (gbn_ack_step e s1 w1 h)) \<and> cfg (fst (gbn_ack_step e s1 w1 h)) = cfg s \<and>
     outcap (fst (gbn_ack_step e s1 w1 h)) = outcap s \<and>
     (gbn_window_ok s \<longrightarrow> gbn_window_ok (fst (gbn_ack_step e s1 w1 h)) \<and>
        (gbn_timer_ok s \<longrightarrow> gbn_timer_ok (fst (gbn_ack_step e s1 w1 h))))" for h
    using k1 i1 t1 gbn_ack_step_inv [of s1 e w1 h] by (auto simp add: gbn_ack_step_fields)
  have q: "\<not> have_in (fst (gbn_check_rto e s1 w1)) \<and> cfg (fst (gbn_check_rto e s1 w1)) = cfg s \<and>
     outcap (fst (gbn_check_rto e s1 w1)) = outcap s \<and>
     (gbn_window_ok s \<longrightarrow> gbn_window_ok (fst (gbn_check_rto e s1 w1)) \<and>
        (gbn_timer_ok s \<longrightarrow> gbn_timer_ok (fst (gbn_check_rto e s1 w1))))"
    using k1 i1 t1 by (auto simp add: gbn_check_rto_fields gbn_check_rto_window_ok gbn_check_rto_timer_ok)
  show ?thesis
  proof (cases "fst rx \<le> 0")
    case True
    then show ?thesis using q k1 i1 t1 by (auto simp add: u)
  next
    case False
    show ?thesis
    proof (cases "bb_wire_parse (host e) (fst (snd rx))")
      case None
      then show ?thesis using False k1 i1 t1 by (auto simp add: u)
    next
      case (Some hp)
      obtain h pl where hp: "hp = (h, pl)" by (cases hp)
      show ?thesis using False Some a [of h] unfolding hp
        by (simp add: u gbn_ok_updates)
    qed
  qed
qed

lemma gbn_proto_recv_delivers:
  assumes "\<not> have_in s" "0 < fst (gbn_proto_recv e s w cap)"
  shows "\<exists>from b h pl. rx_events e (rx_calls w) = RxDatagram from b \<and>
           bb_wire_parse (host e) (take 2048 b) = Some (h, pl) \<and>
           fst (snd (gbn_proto_recv e s w cap)) = take (min (unat (len h)) cap) pl \<and>
           fst (gbn_proto_recv e s w cap) = int (min (unat (len h)) cap)"
proof -
  define p where "p = gbn_check_rto e s w"
  define rx where "rx = bb_channel_recv e (ch (fst p)) (snd p) 2048"
  define s1 where "s1 = (fst p)\<lparr>ch := fst (snd (snd rx))\<rparr>"
  define w1 where "w1 = snd (snd (snd rx))"
  note u = gbn_proto_recv_stages [OF assms(1) p_def rx_def s1_def w1_def, of cap]
  have pos: "0 < fst rx" using assms(2) unfolding u by (auto split: if_splits)
  obtain src b where b: "rx_events e (rx_calls (snd p)) = RxDatagram src b" "fst (snd rx) = take 2048 b"
    using bb_channel_recv_datagram [of e "ch (fst p)" "snd p" 2048] pos unfolding rx_def by auto
  have rc: "rx_calls (snd p) = rx_calls w" by (simp add: p_def gbn_check_rto_fields)
  obtain h pl where hp: "bb_wire_parse (host e) (fst (snd rx)) = Some (h, pl)"
    using assms(2) pos unfolding u by (cases "bb_wire_parse (host e) (fst (snd rx))") auto
  have m: "(if cap < unat (len h) then cap else unat (len h)) = min (unat (len h)) cap" by simp
  have "fst (snd (gbn_proto_recv e s w cap)) = take (min (unat (len h)) cap) pl \<and>
        fst (gbn_proto_recv e s w cap) = int (min (unat (len h)) cap)"
    using assms(2) pos hp unfolding u by (auto split: if_splits)
  then show ?thesis using b rc hp by auto
qed

lemma gbn_create_facts:
  "\<not> have_in (bb_proto_gbn_create c conf)" "outcap (bb_proto_gbn_create c conf) = 65536"
  "gbn_window_ok (bb_proto_gbn_create c conf)" "gbn_timer_ok (bb_proto_gbn_create c conf)"
  by (simp_all add: bb_proto_gbn_create_def Let_def gbn_window_ok_def gbn_timer_ok_def seq_cmp_def)

lemma gbn_reach_latch: "gbn_reach s \<Longrightarrow> \<not> have_in s \<and> outcap s = 65536"
proof (induction rule: gbn_reach.induct)
  case (gbn_created c conf)
  show ?case by (simp add: gbn_create_facts)
next
  case (gbn_sent s e w data)
  then show ?case using gbn_proto_send_facts [of e s w data] by simp
next
  case (gbn_received s e w cap)
  then show ?case using gbn_proto_recv_facts [of s e w cap] by simp
qed

lemma gbn_reach_window: "gbn_reach s \<Longrightarrow> wnd (cfg s) \<le> 0x7fffffff \<Longrightarrow> gbn_window_ok s"
proof (induction rule: gbn_reach.induct)
  case (gbn_created c conf)
  show ?case by (simp add: gbn_create_facts)
next
  case (gbn_sent s e w data)
  then show ?case using gbn_proto_send_facts [of e s w data] by simp
next
  case (gbn_received s e w cap)
  then show ?case using gbn_proto_recv_facts [of s e w cap] gbn_reach_latch [of s] by simp
qed

lemma gbn_reach_nonempty_reach: "gbn_reach_nonempty s \<Longrightarrow> gbn_reach s"
  by (induction rule: gbn_reach_nonempty.induct) (auto intro: gbn_reach.intros)

lemma gbn_reach_nonempty_timer:
  "gbn_reach_nonempty s \<Longrightarrow> wnd (cfg s) \<le> 0x7fffffff \<Longrightarrow> gbn_timer_ok s"
proof (induction rule: gbn_reach_nonempty.induct)
  case (gbn_ne_created c conf)
  show ?case by (simp add: gbn_create_facts)
next
  case (gbn_ne_sent s data e w)
  have r: "gbn_reach s" using gbn_ne_sent.hyps(1) by (rule gbn_reach_nonempty_reach)
  have c: "cfg (fst (snd (gbn_proto_send e s w data))) = cfg s"
    using gbn_proto_send_facts [of e s w data] by simp
  have w: "wnd (cfg s) \<le> 0x7fffffff" using gbn_ne_sent.prems by (simp add: c)
  show ?case
    using gbn_proto_send_facts [of e s w data] gbn_ne_sent.IH [OF w] gbn_ne_sent.hyps(2)
      gbn_reach_window [OF r w] gbn_reach_latch [OF r] w
    by simp
next
  case (gbn_ne_received s e w cap)
  have r: "gbn_reach s" using gbn_ne_received.hyps by (rule gbn_reach_nonempty_reach)
  have c: "cfg (fst (snd (snd (gbn_proto_recv e s w cap)))) = cfg s"
    using gbn_proto_recv_facts [of s e w cap] gbn_reach_latch [OF r] by simp
  have w: "wnd (cfg s) \<le> 0x7fffffff" using gbn_ne_received.prems by (simp add: c)
  show ?case
    using gbn_proto_recv_facts [of s e w cap] gbn_ne_received.IH [OF w]
      gbn_reach_window [OF r w] gbn_reach_latch [OF r]
    by simp
qed

subsection \<open>Go-Back-N on particular environments\<close>

lemma gbn_run_reach: "gbn_reach s \<Longrightarrow> gbn_reach (fst (gbn_run e s w cs))"
proof (induction cs arbitrary: s w)
  case Nil
  then show ?case by simp
next
  case (Cons c cs)
  show ?case
  proof (cases c)
    case (Send data)
    show ?thesis unfolding Send gbn_run.simps Let_def
      by (rule Cons.IH) (rule gbn_sent [OF Cons.prems])
  next
    case (Recv cap)
    show ?thesis unfolding Recv gbn_run.simps Let_def
      by (rule Cons.IH) (rule gbn_received [OF Cons.prems])
  qed
qed

lemma bb_channel_send_lossy:
  "loss_pct (chan_cfg c) = 100 \<Longrightarrow>
   bb_channel_send e c w b =
     (int (length b), c\<lparr>now := clock e (clock_reads w), rng := snd (decide 100 (rng c))\<rparr>,
      w\<lparr>clock_reads := Suc (clock_reads w)\<rparr>)"
  by (simp add: bb_channel_send_def Let_def bb_now_ns_def decide_100)

lemma unat_of_nat_u16: "n \<le> 1482 \<Longrightarrow> unat (of_nat n :: u16) = n"
  by (simp add: unat_of_nat)

lemma gbn_send_frame_lossy:
  assumes "loss_pct (chan_cfg (ch s)) = 100" "n \<le> 1482"
  shows "gbn_send_frame e s w sq p n =
     (0, if timer_running s
         then (s\<lparr>ch := (ch s)\<lparr>now := clock e (clock_reads w), rng := snd (decide 100 (rng (ch s)))\<rparr>\<rparr>,
               w\<lparr>clock_reads := Suc (clock_reads w)\<rparr>)
         else (s\<lparr>ch := (ch s)\<lparr>now := clock e (clock_reads w), rng := snd (decide 100 (rng (ch s)))\<rparr>,
                 timer_ts := clock e (Suc (clock_reads w)) + ucast (rto_ms (cfg s)) * 1000000,
                 timer_running := True\<rparr>,
               w\<lparr>clock_reads := Suc (Suc (clock_reads w))\<rparr>))"
proof -
  have c: "sizeof_bb_hdr_t + unat (of_nat n :: u16) \<le> 1500"
    using assms(2) by (simp add: unat_of_nat_u16 sizeof_bb_hdr_t_def)
  show ?thesis
    unfolding gbn_send_frame_def pack_eq [OF c]
    by (simp add: bb_channel_send_lossy [OF assms(1)] Let_def gbn_start_timer_def bb_now_ns_def)
qed

lemma gbn_proto_send_empty:
  "gbn_proto_send e s w [] = (0, s\<lparr>outbuf := [], outlen := 0\<rparr>, w)"
  by (simp add: gbn_proto_send_def gbn_send_loop.simps [of _ _ _ _ 0])

lemma gbn_proto_send_one_lossy:
  assumes "loss_pct (chan_cfg (ch s)) = 100" "outcap s = 65536" "mss (cfg s) \<noteq> 0"
    "\<not> wnd (cfg s) \<le> snd_nxt s - snd_una s" "\<not> timer_running s"
  shows "gbn_proto_send e s w [x] =
     (0, s\<lparr>ch := (ch s)\<lparr>now := clock e (clock_reads w), rng := snd (decide 100 (rng (ch s)))\<rparr>,
            snd_nxt := snd_nxt s + 1,
            timer_ts := clock e (Suc (clock_reads w)) + ucast (rto_ms (cfg s)) * 1000000,
            timer_running := True, outbuf := [x], outlen := 1\<rparr>,
      w\<lparr>clock_reads := Suc (Suc (clock_reads w))\<rparr>)"
proof -
  have m: "\<not> Suc 0 > unat (mss (cfg s))" using assms(3) by (simp add: unat_gt_0 not_less Suc_le_eq)
  show ?thesis
    using assms(1,2,4,5) m
    by (simp add: gbn_proto_send_def gbn_send_loop.simps [of _ _ _ _ "Suc 0"] Let_def
        gbn_send_frame_lossy bb_next_seq_def)
qed

lemma gbn_proto_recv_timeout_empty_snapshot:
  assumes "\<not> have_in s" "seq_cmp (snd_nxt s) (snd_una s) > 0" "timer_running s"
    "clock e (clock_reads w) \<ge> timer_ts s" "outlen s = 0" "rx_events e (rx_calls w) = RxTimeout"
  shows "gbn_proto_recv e s w cap =
     (0, [], s\<lparr>timer_running := False\<rparr>,
      w\<lparr>clock_reads := Suc (clock_reads w), rx_calls := Suc (rx_calls w)\<rparr>)"
  using assms
  by (simp add: gbn_proto_recv_def gbn_check_rto_def gbn_timer_expired_def bb_now_ns_def Let_def
      retransmit_window_from_snapshot_def bb_channel_recv_def)

lemma chan_test_lossy: "loss_pct (chan_cfg chan_test) = 100"
  by (simp add: chan_test_def bb_channel_create_def)

lemma parse_data_frame:
  "bb_wire_parse pf_portable [126, 177, 2, 10, 1, 0, 0, 0, 0, 0, 0, 0, 2, 0, 239, 1, 226, 24, 72, 105] =
     Some (\<lparr> magic = 0xB17E, flags = 2, hdrlen = 10, seq = 1, ack = 0, len = 2, crc32c = 417464815 \<rparr>,
           [72, 105])"
  by code_simp

lemma parse_ack_frame:
  "bb_wire_parse pf_portable [126, 177, 1, 10, 0, 0, 0, 0, 1, 0, 0, 0, 0, 0, 59, 1, 77, 21] =
     Some (\<lparr> magic = 0xB17E, flags = 1, hdrlen = 10, seq = 0, ack = 1, len = 0, crc32c = 357368123 \<rparr>, [])"
  by code_simp

lemma gbn_proto_recv_ack_frame:
  assumes "\<not> have_in s" "seq_cmp (snd_nxt s) (snd_una s) > 0" "timer_running s"
    "\<not> clock e (clock_reads w) \<ge> timer_ts s" "rx_events e (rx_calls w) = RxDatagram src b"
    "bb_wire_parse (host e) (take 2048 b) = Some (h, pl)" "take 2048 b \<noteq> []"
    "flags h AND BB_FLAG_DATA = 0"
  shows "gbn_proto_recv e s w cap =
     (0, [], gbn_ack_step e (s\<lparr>ch := (ch s)\<lparr>peer := src\<rparr>\<rparr>)
               (w\<lparr>clock_reads := Suc (clock_reads w), rx_calls := Suc (rx_calls w)\<rparr>) h)"
  using assms
  by (simp add: gbn_proto_recv_def gbn_check_rto_def gbn_timer_expired_def bb_now_ns_def Let_def
      bb_channel_recv_def min_def)

lemma gbn_proto_recv_data_frame:
  assumes "\<not> have_in s" "\<not> seq_cmp (snd_nxt s) (snd_una s) > 0"
    "rx_events e (rx_calls w) = RxDatagram src b"
    "bb_wire_parse (host e) (take 2048 b) = Some (h, pl)" "take 2048 b \<noteq> []"
    "flags h AND BB_FLAG_DATA \<noteq> 0" "seq h = rcv_nxt s"
  shows "fst (gbn_proto_recv e s w cap) = int (min (unat (len h)) cap) \<and>
         fst (snd (gbn_proto_recv e s w cap)) = take (min (unat (len h)) cap) pl"
  using assms gbn_ack_step_keeps [of e "s\<lparr>ch := (ch s)\<lparr>peer := src\<rparr>\<rparr>" "w\<lparr>rx_calls := Suc (rx_calls w)\<rparr>" h]
  by (simp add: gbn_proto_recv_def gbn_check_rto_def Let_def bb_channel_recv_def seq_cmp_def min_def)

section \<open>Claims about the frame codec\<close>

text \<open>
  Claim C2, as amended. The packed header occupies \<^verbatim>\<open>sizeof(bb_hdr_t)\<close> = 18 bytes
  (2 + 1 + 1 + 4 + 4 + 2 + 4), not 16. For every flags value, seq, ack and payload of
  length \<open>len\<close>, with a destination buffer of capacity at least 18 + \<open>len\<close>,
  \<^verbatim>\<open>bb_wire_pack\<close> returns 18 + \<open>len\<close>, and \<^verbatim>\<open>bb_wire_parse\<close> applied to exactly
  those bytes succeeds, yielding a header whose flags, seq, ack and len equal the packed
  inputs and a payload slice starting at offset 18 whose bytes equal the input payload.
\<close>

theorem C2_pack_parse_roundtrip:
  assumes "sizeof_bb_hdr_t + unat plen \<le> cap" and "length payload = unat plen"
  shows "\<exists>frame h. bb_wire_pack pf cap fl sq ak payload plen = Some frame \<and>
           length frame = 18 + unat plen \<and>
           bb_wire_parse pf frame = Some (h, drop 18 frame) \<and>
           flags h = fl \<and> seq h = sq \<and> ack h = ak \<and> len h = plen \<and>
           take (unat plen) (drop 18 frame) = payload"
proof -
  let ?h = "packed_hdr pf fl sq ak payload plen"
  let ?frame = "hdr_bytes ?h @ take (unat plen) payload"
  have p: "bb_wire_pack pf cap fl sq ak payload plen = Some ?frame"
    using assms(1) by (rule pack_eq)
  have q: "bb_wire_parse pf ?frame = Some (?h, take (unat plen) payload)"
    using assms(2) by (intro parse_packed) simp
  have d: "drop 18 ?frame = take (unat plen) payload" by simp
  have f: "flags ?h = fl" "seq ?h = sq" "ack ?h = ak" "len ?h = plen"
    by (simp_all add: packed_hdr_def)
  have l: "length ?frame = 18 + unat plen" using assms(2) by simp
  show ?thesis
    using p q f l assms(2) unfolding d by (intro exI [of _ ?frame] exI [of _ ?h]) simp
qed

text \<open>Claim C2, witness: a three-byte DATA frame on the host without hardware CRC32C.\<close>

theorem C2_pack_parse_roundtrip_witness:
  "sizeof_bb_hdr_t + unat (3::u16) \<le> 64 \<and> length [1, 2, 3 :: u8] = unat (3::u16) \<and>
   (\<exists>frame h. bb_wire_pack pf_portable 64 BB_FLAG_DATA 7 5 [1, 2, 3] 3 = Some frame \<and>
      length frame = 18 + unat (3::u16) \<and>
      bb_wire_parse pf_portable frame = Some (h, drop 18 frame) \<and>
      flags h = BB_FLAG_DATA \<and> seq h = 7 \<and> ack h = 5 \<and> len h = 3 \<and>
      take (unat (3::u16)) (drop 18 frame) = [1, 2, 3])"
proof -
  have a: "sizeof_bb_hdr_t + unat (3::u16) \<le> 64" by (simp add: sizeof_bb_hdr_t_def)
  have b: "length [1, 2, 3 :: u8] = unat (3::u16)" by simp
  show ?thesis
    using a b C2_pack_parse_roundtrip [OF a b, of pf_portable BB_FLAG_DATA 7 5] by blast
qed

text \<open>
  Claim C2 as stated fails: with a capacity of exactly 16 + \<open>len\<close> (here \<open>len\<close> = 0) the
  packer refuses and returns 0, and with enough room the frame of an empty payload has 18
  bytes, on either checksum backend.
\<close>

theorem C2_counterexample:
  "bb_wire_pack pf_portable (16 + 0) BB_FLAG_ACK 0 0 [] 0 = None \<and>
   map_option length (bb_wire_pack pf_portable 64 BB_FLAG_ACK 0 0 [] 0) = Some 18 \<and>
   map_option length (bb_wire_pack pf_sse42 64 BB_FLAG_ACK 0 0 [] 0) = Some 18"
  by code_simp

text \<open>
  Claim C6, as amended. \<^verbatim>\<open>bb_wire_parse\<close> accepts a span exactly when it holds at least
  18 bytes, its magic field equals 0xB17E, its stored crc equals the checksum recomputed
  over the span with the crc field zeroed, and it holds at least 18 + \<open>len\<close> bytes. The
  \<open>hdrlen\<close> field is not examined on receive.
\<close>

theorem C6_parse_accepts_iff:
  "bb_wire_parse pf buf \<noteq> None \<longleftrightarrow>
     sizeof_bb_hdr_t \<le> length buf \<and>
     magic (hdr_of_bytes buf) = BB_MAGIC \<and>
     crc32c (hdr_of_bytes buf) = wire_checksum pf (set_crc buf 0) \<and>
     sizeof_bb_hdr_t + unat (len (hdr_of_bytes buf)) \<le> length buf"
  by (auto simp add: bb_wire_parse_def Let_def get_crc_def hdr_of_bytes_def)

text \<open>Claim C6, witness: an accepted span on the host with hardware CRC32C.\<close>

theorem C6_parse_accepts_iff_witness:
  "bb_wire_parse pf_sse42 [126, 177, 1, 11, 0, 0, 0, 0, 5, 0, 0, 0, 0, 0, 174, 178, 234, 204] \<noteq> None"
proof -
  let ?buf = "[126, 177, 1, 11, 0, 0, 0, 0, 5, 0, 0, 0, 0, 0, 174, 178, 234, 204] :: u8 list"
  have "sizeof_bb_hdr_t \<le> length ?buf \<and>
     magic (hdr_of_bytes ?buf) = BB_MAGIC \<and>
     crc32c (hdr_of_bytes ?buf) = wire_checksum pf_sse42 (set_crc ?buf 0) \<and>
     sizeof_bb_hdr_t + unat (len (hdr_of_bytes ?buf)) \<le> length ?buf"
    by code_simp
  then show ?thesis using C6_parse_accepts_iff [of pf_sse42 ?buf] by blast
qed

text \<open>
  Claim C6 as stated fails: this pure ACK frame carries \<open>hdrlen\<close> = 11 and a matching
  Fletcher-32 checksum, and the parser accepts it.
\<close>

theorem C6_counterexample:
  "map_option (hdrlen \<circ> fst)
     (bb_wire_parse pf_portable [126, 177, 1, 11, 0, 0, 0, 0, 5, 0, 0, 0, 0, 0, 64, 1, 132, 21])
   = Some 11"
  by code_simp



section \<open>Claims about the channel\<close>




text \<open>
  Claim C10. For every \<^verbatim>\<open>bb_channel_send\<close> call in which the loss decision drops the
  input frame, the function returns the input length at once: the clock is read once
  (the drain loop would read it again), \<^verbatim>\<open>sendto()\<close> is not called and nothing is added
  to the wire, and the outbound queue and the token bucket's next transmit time are
  unchanged.
\<close>

theorem C10_drop_returns_early:
  assumes "fst (decide (loss_pct (chan_cfg chn)) (rng chn))"
  shows "case bb_channel_send e chn w b of (r, chn', w') \<Rightarrow>
           r = int (length b) \<and> queue chn' = queue chn \<and> next_tx_ts chn' = next_tx_ts chn \<and>
           wire w' = wire w \<and> sendto_calls w' = sendto_calls w \<and>
           clock_reads w' = Suc (clock_reads w)"
  using assms by (simp add: bb_channel_send_def Let_def bb_now_ns_def)

text \<open>
  Claim C10, witness: the channel of the repository's smoke test (100 percent loss, seed
  1234) with one frame already queued and ready, sending the five bytes of "test".
\<close>

theorem C10_drop_returns_early_witness:
  "fst (bb_channel_send env_idle chan_test world0 [116, 101, 115, 116, 0]) = 5 \<and>
   queue (fst (snd (bb_channel_send env_idle chan_test world0 [116, 101, 115, 116, 0])))
     = [\<lparr> frame_buf = [1, 2], ready_ts = 0 \<rparr>] \<and>
   wire (snd (snd (bb_channel_send env_idle chan_test world0 [116, 101, 115, 116, 0]))) = []"
proof -
  have h: "fst (decide (loss_pct (chan_cfg chan_test)) (rng chan_test))"
    by (simp add: chan_test_def bb_channel_create_def decide_100)
  show ?thesis
    using C10_drop_returns_early [OF h, where e = env_idle and w = world0 and b = "[116, 101, 115, 116, 0]"]
    by (auto simp add: chan_test_def world0_def bb_channel_create_def split: prod.splits)
qed

section \<open>Claims about the Go-Back-N engine\<close>

text \<open>
  Claim C4, as the code has it. In every state of a GBN engine reached from
  \<^verbatim>\<open>bb_proto_gbn_create\<close> by receives and by sends of non-empty messages, with a
  configured window of at most \<open>2^31 - 1\<close>, the retransmission timer is armed if and
  only if \<open>snd_una\<close> is before \<open>snd_nxt\<close> by signed comparison.
\<close>

theorem C4_timer_armed_iff_outstanding:
  assumes "gbn_reach_nonempty s" "wnd (cfg s) \<le> 0x7fffffff"
  shows "timer_running s \<longleftrightarrow> seq_cmp (snd_una s) (snd_nxt s) < 0"
  using gbn_reach_nonempty_timer [OF assms] by (simp add: gbn_timer_ok_def)

text \<open>
  Claim C4, witness: the client's engine on the lossy test channel after sending the one
  byte "A". It is reachable, its window is 32, the timer runs and one sequence is
  outstanding.
\<close>

theorem C4_timer_armed_iff_outstanding_witness:
  "gbn_reach_nonempty (fst (snd (gbn_proto_send env_late (bb_proto_gbn_create chan_test cfg_client) world0 [65]))) \<and>
   wnd (cfg (fst (snd (gbn_proto_send env_late (bb_proto_gbn_create chan_test cfg_client) world0 [65])))) = 32 \<and>
   timer_running (fst (snd (gbn_proto_send env_late (bb_proto_gbn_create chan_test cfg_client) world0 [65]))) \<and>
   seq_cmp (snd_una (fst (snd (gbn_proto_send env_late (bb_proto_gbn_create chan_test cfg_client) world0 [65]))))
     (snd_nxt (fst (snd (gbn_proto_send env_late (bb_proto_gbn_create chan_test cfg_client) world0 [65])))) < 0"
proof -
  define s0 where "s0 = bb_proto_gbn_create chan_test cfg_client"
  define s1 where "s1 = fst (snd (gbn_proto_send env_late s0 world0 [65]))"
  have f0: "loss_pct (chan_cfg (ch s0)) = 100" "outcap s0 = 65536" "mss (cfg s0) \<noteq> 0"
    "\<not> wnd (cfg s0) \<le> snd_nxt s0 - snd_una s0" "\<not> timer_running s0"
    by (simp_all add: s0_def bb_proto_gbn_create_def cfg_client_def chan_test_lossy)
  have f1: "timer_running s1" "wnd (cfg s1) = 32"
    unfolding s1_def gbn_proto_send_one_lossy [OF f0]
    by (simp_all add: s0_def bb_proto_gbn_create_def cfg_client_def)
  have r: "gbn_reach_nonempty s1"
    unfolding s1_def s0_def by (rule gbn_ne_sent [OF gbn_ne_created]) simp
  have l: "wnd (cfg s1) \<le> 0x7fffffff" unfolding f1 by simp
  show ?thesis
    using C4_timer_armed_iff_outstanding [OF r l] r f1
    unfolding s1_def s0_def by simp
qed

text \<open>
  Claim C4 fails as stated. The client's engine sends "A", then an empty message, which
  replaces the snapshot by an empty one and sends nothing; the next receive finds the
  timer expired and \<^verbatim>\<open>retransmit_window_from_snapshot\<close>, having nothing to resend,
  stops the timer. The state is reachable, sequence 1 is still outstanding and the
  timer is off.
\<close>

theorem C4_counterexample:
  "gbn_reach (fst (gbn_run env_late (bb_proto_gbn_create chan_test cfg_client) world0
       [Send [65], Send [], Recv 64])) \<and>
   wnd (cfg (fst (gbn_run env_late (bb_proto_gbn_create chan_test cfg_client) world0
       [Send [65], Send [], Recv 64]))) = 32 \<and>
   seq_cmp (snd_una (fst (gbn_run env_late (bb_proto_gbn_create chan_test cfg_client) world0
       [Send [65], Send [], Recv 64])))
     (snd_nxt (fst (gbn_run env_late (bb_proto_gbn_create chan_test cfg_client) world0
       [Send [65], Send [], Recv 64]))) < 0 \<and>
   \<not> timer_running (fst (gbn_run env_late (bb_proto_gbn_create chan_test cfg_client) world0
       [Send [65], Send [], Recv 64]))"
proof -
  define s0 where "s0 = bb_proto_gbn_create chan_test cfg_client"
  define s1 where "s1 = fst (snd (gbn_proto_send env_late s0 world0 [65]))"
  define w1 where "w1 = snd (snd (gbn_proto_send env_late s0 world0 [65]))"
  define s2 where "s2 = s1\<lparr>outbuf := [], outlen := 0\<rparr>"
  define s3 where "s3 = fst (snd (snd (gbn_proto_recv env_late s2 w1 64)))"
  have r: "fst (gbn_run env_late s0 world0 [Send [65], Send [], Recv 64]) = s3"
    by (simp add: Let_def gbn_proto_send_empty s1_def [symmetric] w1_def [symmetric]
        s2_def [symmetric] s3_def [symmetric])
  have f0: "loss_pct (chan_cfg (ch s0)) = 100" "outcap s0 = 65536" "mss (cfg s0) \<noteq> 0"
    "\<not> wnd (cfg s0) \<le> snd_nxt s0 - snd_una s0" "\<not> timer_running s0"
    by (simp_all add: s0_def bb_proto_gbn_create_def cfg_client_def chan_test_lossy)
  have f1: "snd_una s1 = 1" "snd_nxt s1 = 2" "timer_running s1" "timer_ts s1 = 1150000000"
    "\<not> have_in s1" "wnd (cfg s1) = 32" "clock_reads w1 = 2" "rx_calls w1 = 0"
    unfolding s1_def w1_def gbn_proto_send_one_lossy [OF f0]
    by (simp_all add: s0_def bb_proto_gbn_create_def cfg_client_def env_late_def env_idle_def world0_def)
  have q: "seq_cmp 2 1 > 0" "seq_cmp 1 2 < 0" by (simp_all add: seq_cmp_def)
  have f2: "\<not> have_in s2" "seq_cmp (snd_nxt s2) (snd_una s2) > 0" "timer_running s2"
    "clock env_late (clock_reads w1) \<ge> timer_ts s2" "outlen s2 = 0"
    "rx_events env_late (rx_calls w1) = RxTimeout"
    using q by (simp_all add: s2_def f1 env_late_def env_idle_def)
  have f3: "s3 = s2\<lparr>timer_running := False\<rparr>"
    unfolding s3_def gbn_proto_recv_timeout_empty_snapshot [OF f2] by simp
  have g: "gbn_reach (fst (gbn_run env_late s0 world0 [Send [65], Send [], Recv 64]))"
    unfolding s0_def by (rule gbn_run_reach [OF gbn_created])
  show ?thesis
    using g q(2) unfolding s0_def [symmetric] r by (simp add: f3 s2_def f1)
qed

text \<open>
  Claim C5, as the code has it. In the ACK handling of a GBN receive, an acknowledgment
  number strictly before \<open>snd_una\<close> by signed comparison changes nothing: engine and
  world are as before. A number that compares non-positively leaves \<open>snd_una\<close> and
  \<open>snd_nxt\<close> unchanged. But a number equal to \<open>snd_una\<close> lies in the accepted range
  \<open>[snd_una, snd_nxt]\<close>: with data outstanding the timer is started afresh from the
  current clock.
\<close>

theorem C5_stale_ack_ignored:
  "(seq_cmp (ack h) (snd_una s) < 0 \<longrightarrow> gbn_ack_step e s w h = (s, w)) \<and>
   (seq_cmp (ack h) (snd_una s) \<le> 0 \<longrightarrow>
      snd_una (fst (gbn_ack_step e s w h)) = snd_una s \<and>
      snd_nxt (fst (gbn_ack_step e s w h)) = snd_nxt s) \<and>
   (ack h = snd_una s \<and> seq_cmp (snd_una s) (snd_nxt s) < 0 \<longrightarrow>
      gbn_ack_step e s w h = gbn_start_timer e s w)"
proof (intro conjI impI)
  assume "seq_cmp (ack h) (snd_una s) < 0"
  then show "gbn_ack_step e s w h = (s, w)" by (simp add: gbn_ack_step_def)
next
  assume a: "seq_cmp (ack h) (snd_una s) \<le> 0"
  show "snd_una (fst (gbn_ack_step e s w h)) = snd_una s"
  proof (cases "seq_cmp (ack h) (snd_una s) = 0")
    case True
    then have "ack h = snd_una s" by (simp add: seq_cmp_eq0)
    then show ?thesis by (simp add: gbn_ack_step_def gbn_start_timer_def Let_def)
  next
    case False
    then have "seq_cmp (ack h) (snd_una s) < 0" using a by simp
    then show ?thesis by (simp add: gbn_ack_step_def)
  qed
  show "snd_nxt (fst (gbn_ack_step e s w h)) = snd_nxt s"
    using gbn_ack_step_keeps [of e s w h] by simp
next
  assume a: "ack h = snd_una s \<and> seq_cmp (snd_una s) (snd_nxt s) < 0"
  have z: "seq_cmp (snd_una s) (snd_una s) = 0" by (simp add: seq_cmp_def)
  show "gbn_ack_step e s w h = gbn_start_timer e s w"
    using a by (simp add: gbn_ack_step_def Let_def z)
qed

text \<open>
  Claim C5, witness: a fresh client engine (\<open>snd_una = 1\<close>) handling a header with
  acknowledgment number 0, and the same engine with one sequence outstanding handling a
  header with acknowledgment number 1.
\<close>

theorem C5_stale_ack_ignored_witness:
  "gbn_ack_step env_idle (bb_proto_gbn_create chan_test cfg_client) world0
      \<lparr> magic = BB_MAGIC, flags = BB_FLAG_ACK, hdrlen = 10, seq = 0, ack = 0, len = 0, crc32c = 0 \<rparr>
     = (bb_proto_gbn_create chan_test cfg_client, world0) \<and>
   gbn_ack_step env_idle ((bb_proto_gbn_create chan_test cfg_client)\<lparr>snd_nxt := 2\<rparr>) world0
      \<lparr> magic = BB_MAGIC, flags = BB_FLAG_ACK, hdrlen = 10, seq = 0, ack = 1, len = 0, crc32c = 0 \<rparr>
     = gbn_start_timer env_idle ((bb_proto_gbn_create chan_test cfg_client)\<lparr>snd_nxt := 2\<rparr>) world0"
proof -
  have a: "seq_cmp 0 1 < 0" "seq_cmp 1 2 < 0" by (simp_all add: seq_cmp_def)
  show ?thesis
    using a
      C5_stale_ack_ignored [where s = "bb_proto_gbn_create chan_test cfg_client" and e = env_idle
        and w = world0
        and h = "\<lparr> magic = BB_MAGIC, flags = BB_FLAG_ACK, hdrlen = 10, seq = 0, ack = 0, len = 0, crc32c = 0 \<rparr>"]
      C5_stale_ack_ignored [where s = "(bb_proto_gbn_create chan_test cfg_client)\<lparr>snd_nxt := 2\<rparr>"
        and e = env_idle and w = world0
        and h = "\<lparr> magic = BB_MAGIC, flags = BB_FLAG_ACK, hdrlen = 10, seq = 0, ack = 1, len = 0, crc32c = 0 \<rparr>"]
    by (simp add: bb_proto_gbn_create_def cfg_client_def)
qed

text \<open>
  Claim C5 fails as stated. The client's engine sends "A" on the lossy channel: sequence 1
  is outstanding and the timer is due at 150001000 ns. The next receive gets an ACK frame
  with acknowledgment number 1, which compares non-positively (equal) against
  \<open>snd_una = 1\<close>; the timer has not expired, and the ACK handling moves its deadline to
  150003000 ns.
\<close>

theorem C5_counterexample:
  "snd_una (fst (gbn_run env_ack (bb_proto_gbn_create chan_test cfg_client) world0 [Send [65]])) = 1 \<and>
   timer_ts (fst (gbn_run env_ack (bb_proto_gbn_create chan_test cfg_client) world0 [Send [65]])) = 150001000 \<and>
   map_option (\<lambda>x. ack (fst x))
     (bb_wire_parse (host env_ack) [126, 177, 1, 10, 0, 0, 0, 0, 1, 0, 0, 0, 0, 0, 59, 1, 77, 21]) = Some 1 \<and>
   seq_cmp 1 1 \<le> 0 \<and>
   timer_ts (fst (gbn_run env_ack (bb_proto_gbn_create chan_test cfg_client) world0 [Send [65], Recv 64]))
     = 150003000"
proof -
  define s0 where "s0 = bb_proto_gbn_create chan_test cfg_client"
  define s1 where "s1 = fst (snd (gbn_proto_send env_ack s0 world0 [65]))"
  define w1 where "w1 = snd (snd (gbn_proto_send env_ack s0 world0 [65]))"
  define s2 where "s2 = fst (snd (snd (gbn_proto_recv env_ack s1 w1 64)))"
  define h where "h = \<lparr> magic = 0xB17E, flags = 1, hdrlen = 10, seq = 0, ack = 1, len = 0,
    crc32c = (357368123 :: u32) \<rparr>"
  have r1: "fst (gbn_run env_ack s0 world0 [Send [65]]) = s1"
    by (simp add: Let_def s1_def)
  have r2: "fst (gbn_run env_ack s0 world0 [Send [65], Recv 64]) = s2"
    by (simp add: Let_def s1_def [symmetric] w1_def [symmetric] s2_def)
  have f0: "loss_pct (chan_cfg (ch s0)) = 100" "outcap s0 = 65536" "mss (cfg s0) \<noteq> 0"
    "\<not> wnd (cfg s0) \<le> snd_nxt s0 - snd_una s0" "\<not> timer_running s0"
    by (simp_all add: s0_def bb_proto_gbn_create_def cfg_client_def chan_test_lossy)
  have f1: "snd_una s1 = 1" "snd_nxt s1 = 2" "timer_running s1" "timer_ts s1 = 150001000"
    "\<not> have_in s1" "rto_ms (cfg s1) = 150" "clock_reads w1 = 2" "rx_calls w1 = 0"
    unfolding s1_def w1_def gbn_proto_send_one_lossy [OF f0]
    by (simp_all add: s0_def bb_proto_gbn_create_def cfg_client_def env_ack_def env_idle_def world0_def)
  have q: "seq_cmp 2 1 > 0" "seq_cmp 1 2 < 0" "seq_cmp 1 1 = 0" by (simp_all add: seq_cmp_def)
  have p: "bb_wire_parse (host env_ack) [126, 177, 1, 10, 0, 0, 0, 0, 1, 0, 0, 0, 0, 0, 59, 1, 77, 21]
      = Some (h, [])"
    unfolding h_def using parse_ack_frame by (simp add: env_ack_def env_idle_def)
  have f2: "\<not> have_in s1" "seq_cmp (snd_nxt s1) (snd_una s1) > 0" "timer_running s1"
    "\<not> clock env_ack (clock_reads w1) \<ge> timer_ts s1"
    "rx_events env_ack (rx_calls w1) =
       RxDatagram 9999 [126, 177, 1, 10, 0, 0, 0, 0, 1, 0, 0, 0, 0, 0, 59, 1, 77, 21]"
    "bb_wire_parse (host env_ack)
       (take 2048 [126, 177, 1, 10, 0, 0, 0, 0, 1, 0, 0, 0, 0, 0, 59, 1, 77, 21]) = Some (h, [])"
    "take 2048 [126, 177, 1, 10, 0, 0, 0, 0, 1, 0, 0, 0, 0, 0, 59, 1, 77, 21] \<noteq> ([] :: u8 list)"
    "flags h AND BB_FLAG_DATA = 0"
    using q(1) p
    by (simp_all add: f1 env_ack_def env_idle_def h_def BB_FLAG_DATA_def)
  have f3: "timer_ts s2 = 150003000"
    unfolding s2_def gbn_proto_recv_ack_frame [OF f2]
    using q
    by (simp add: gbn_ack_step_def h_def f1 Let_def gbn_start_timer_def bb_now_ns_def
        env_ack_def env_idle_def)
  show ?thesis
    unfolding s0_def [symmetric] r1 r2 using q(3) by (simp add: f1 f3 p h_def)
qed

text \<open>
  Claim C9. After \<^verbatim>\<open>bb_proto_gbn_create\<close> the delivery latch of a GBN engine is never
  set: \<open>have_in\<close> is false in every state reached by sends and receives, so the branch
  at the top of \<^verbatim>\<open>bb_proto_recv\<close> that delivers from the latch is never taken. Whenever a
  receive delivers bytes to the caller, the socket handed over a datagram during that
  very call, its first 2048 bytes parsed as a frame, and the bytes delivered are the
  first \<open>min (len, cap)\<close> bytes of that frame's payload.
\<close>

theorem C9_gbn_latch_never_set:
  assumes "gbn_reach s"
  shows "\<not> have_in s \<and>
     (0 < fst (gbn_proto_recv e s w cap) \<longrightarrow>
        (\<exists>src b h pl. rx_events e (rx_calls w) = RxDatagram src b \<and>
           bb_wire_parse (host e) (take 2048 b) = Some (h, pl) \<and>
           fst (snd (gbn_proto_recv e s w cap)) = take (min (unat (len h)) cap) pl \<and>
           fst (gbn_proto_recv e s w cap) = int (min (unat (len h)) cap)))"
proof -
  have l: "\<not> have_in s" using gbn_reach_latch [OF assms] by simp
  show ?thesis using l gbn_proto_recv_delivers [OF l, of e w cap] by blast
qed

text \<open>
  Claim C9, witness: a fresh client engine receives the DATA frame with sequence 1 and
  payload "Hi" into a buffer of 64 bytes: 2 bytes are delivered, and they are "Hi".
\<close>

theorem C9_gbn_latch_never_set_witness:
  "\<not> have_in (bb_proto_gbn_create chan_test cfg_client) \<and>
   0 < fst (gbn_proto_recv env_data (bb_proto_gbn_create chan_test cfg_client) world0 64) \<and>
   fst (snd (gbn_proto_recv env_data (bb_proto_gbn_create chan_test cfg_client) world0 64)) = [72, 105]"
proof -
  define s0 where "s0 = bb_proto_gbn_create chan_test cfg_client"
  define h where "h = \<lparr> magic = 0xB17E, flags = 2, hdrlen = 10, seq = 1, ack = 0, len = 2,
    crc32c = (417464815 :: u32) \<rparr>"
  have p: "bb_wire_parse (host env_data)
       (take 2048 [126, 177, 2, 10, 1, 0, 0, 0, 0, 0, 0, 0, 2, 0, 239, 1, 226, 24, 72, 105])
     = Some (h, [72, 105])"
    unfolding h_def using parse_data_frame by (simp add: env_data_def env_idle_def)
  have ev: "rx_events env_data (rx_calls world0) =
      RxDatagram 9999 [126, 177, 2, 10, 1, 0, 0, 0, 0, 0, 0, 0, 2, 0, 239, 1, 226, 24, 72, 105]"
    by (simp add: env_data_def)
  have f: "\<not> have_in s0" "\<not> seq_cmp (snd_nxt s0) (snd_una s0) > 0"
    "take 2048 [126, 177, 2, 10, 1, 0, 0, 0, 0, 0, 0, 0, 2, 0, 239, 1, 226, 24, 72, 105] \<noteq> ([] :: u8 list)"
    "flags h AND BB_FLAG_DATA \<noteq> 0" "seq h = rcv_nxt s0"
    by (simp_all add: s0_def bb_proto_gbn_create_def cfg_client_def seq_cmp_def h_def BB_FLAG_DATA_def)
  have d: "fst (gbn_proto_recv env_data s0 world0 64) = 2"
    using gbn_proto_recv_data_frame [OF f(1) f(2) ev p f(3) f(4) f(5), of 64] by (simp add: h_def)
  have r: "gbn_reach s0" unfolding s0_def by (rule gbn_created)
  have pos: "0 < fst (gbn_proto_recv env_data s0 world0 64)" unfolding d by simp
  obtain src b h' pl where o: "rx_events env_data (rx_calls world0) = RxDatagram src b"
    "bb_wire_parse (host env_data) (take 2048 b) = Some (h', pl)"
    "fst (snd (gbn_proto_recv env_data s0 world0 64)) = take (min (unat (len h')) 64) pl"
    using C9_gbn_latch_never_set [OF r, of env_data world0 64] pos by blast
  have b: "b = [126, 177, 2, 10, 1, 0, 0, 0, 0, 0, 0, 0, 2, 0, 239, 1, 226, 24, 72, 105]"
    using o(1) unfolding ev by simp
  have hp: "h' = h" "pl = [72, 105]" using o(2) unfolding b p by simp_all
  have out: "fst (snd (gbn_proto_recv env_data s0 world0 64)) = [72, 105]"
    unfolding o(3) hp by (simp add: h_def)
  show ?thesis
    using f(1) pos out unfolding s0_def by simp
qed

end
